theory Spec2Isabelle
  imports Complex_Main
begin

section \<open>Constants (constants.py)\<close>

definition TOTALMAXNUM :: nat where "TOTALMAXNUM = 8"
definition NCONTEXTS :: nat where "NCONTEXTS = 2"
definition NTYPEBITS :: nat where "NTYPEBITS = 1"

definition FULLR_LLIM :: int where "FULLR_LLIM = 1"
definition FULLR_ULIM :: int where "FULLR_ULIM = 8"
definition LOWR_LLIM :: int where "LOWR_LLIM = 1"
definition LOWR_ULIM :: int where "LOWR_ULIM = 4"
definition HIGHR_LLIM :: int where "HIGHR_LLIM = 5"
definition HIGHR_ULIM :: int where "HIGHR_ULIM = 8"

definition TRIAL_FILLER :: real where "TRIAL_FILLER = 0"
definition TRIAL_COMPARE :: real where "TRIAL_COMPARE = 1"

text \<open>\<^verbatim>\<open>range(a, b)\<close> over Python integers, and \<^verbatim>\<open>np.mean\<close> of such a range.\<close>

definition py_range :: "int \<Rightarrow> int \<Rightarrow> int list" where
  "py_range a b = [a ..(b - 1)]"

definition np_mean :: "int list \<Rightarrow> real" where
  "np_mean xs = real_of_int (sum_list xs) / real (length xs)"

definition CONTEXT_FULL_MEAN :: real where
  "CONTEXT_FULL_MEAN = np_mean (py_range FULLR_LLIM (FULLR_ULIM + 1))"
definition CONTEXT_LOW_MEAN :: real where
  "CONTEXT_LOW_MEAN = np_mean (py_range LOWR_LLIM (LOWR_ULIM + 1))"
definition CONTEXT_HIGH_MEAN :: real where
  "CONTEXT_HIGH_MEAN = np_mean (py_range HIGHR_LLIM (HIGHR_ULIM + 1))"
definition GLOBAL_MEAN :: real where "GLOBAL_MEAN = 45 / 10"

section \<open>Outcomes of a call\<close>

text \<open>
  A Python call either returns, or raises. The sampling code draws from the shared
  pseudo-random source inside \<^verbatim>\<open>while\<close> loops; the model reads those draws from a
  finite tape, and \<open>OutOfDraws\<close> is the outcome of a run that has used the whole tape
  without leaving its loops.
\<close>

datatype error = IndexError | ValueError | ZeroDivisionError | AttributeError
  | UnboundLocalError | RuntimeError

datatype 'a result = Ok 'a | Raise error | OutOfDraws

fun bind :: "'a result \<Rightarrow> ('a \<Rightarrow> 'b result) \<Rightarrow> 'b result" where
  "bind (Ok x) f = f x"
| "bind (Raise e) f = Raise e"
| "bind OutOfDraws f = OutOfDraws"

text \<open>\<^verbatim>\<open>for i in idxs: s = body(i, s)\<close>, stopping at the first exception.\<close>

fun for_each :: "'i list \<Rightarrow> ('i \<Rightarrow> 's \<Rightarrow> 's result) \<Rightarrow> 's \<Rightarrow> 's result" where
  "for_each [] body s = Ok s"
| "for_each (i # idxs) body s = bind (body i s) (for_each idxs body)"

text \<open>\<^verbatim>\<open>xs[i]\<close> for an index produced by \<^verbatim>\<open>range\<close> (never negative).\<close>

definition getitem :: "'a list \<Rightarrow> nat \<Rightarrow> 'a result" where
  "getitem xs i = (if i < length xs then Ok (xs ! i) else Raise IndexError)"

section \<open>One-hot coding (define\_dataset.py)\<close>

text \<open>
  \<^verbatim>\<open>turn_one_hot(integer, maxSize)\<close>: a column of \<open>maxSize\<close> zeros with a one written at
  index \<^verbatim>\<open>integer-(const.NCONTEXTS-1)\<close>. The \<open>(maxSize, 1)\<close> array is kept as the list of
  its rows. A negative index counts from the end, as numpy's does; an index outside
  \<open>[-maxSize, maxSize)\<close> raises.
\<close>

definition turn_one_hot :: "int \<Rightarrow> nat \<Rightarrow> real list result" where
  "turn_one_hot integer maxSize =
     (let idx = integer - (int NCONTEXTS - 1); oneHot = replicate maxSize (0::real) in
      if 0 \<le> idx \<and> idx < int maxSize then Ok (oneHot[nat idx := 1])
      else if - int maxSize \<le> idx \<and> idx < 0 then Ok (oneHot[nat (idx + int maxSize) := 1])
      else Raise IndexError)"

text \<open>
  \<^verbatim>\<open>turn_one_hot_to_integer(onehot)\<close>: \<^verbatim>\<open>np.nonzero(onehot)[0] + 1\<close>, the array of the
  positions of the nonzero entries, each plus one.
\<close>

definition np_nonzero :: "real list \<Rightarrow> nat list" where
  "np_nonzero v = filter (\<lambda>i. v ! i \<noteq> 0) [0..<length v]"

definition turn_one_hot_to_integer :: "real list \<Rightarrow> int list" where
  "turn_one_hot_to_integer onehot = map (\<lambda>i. int i + 1) (np_nonzero onehot)"

section \<open>Trial sequences and the comparison labels (define\_dataset.py)\<close>

text \<open>
  A float of a numpy array or a torch tensor: a number or NaN. The \<^verbatim>\<open>label\<close> array holds
  \<open>1\<close>, \<open>0\<close> and NaN; \<^verbatim>\<open>target[...] = None\<close> stores NaN.
\<close>

datatype label = NaN | Val real

text \<open>
  The truth value of a numpy array is that of its only element; an array of another size
  has none. Every vector of \<^verbatim>\<open>input_sequence\<close> is written by \<open>turn_one_hot\<close>, so the
  arrays decoded from it have one element.
\<close>

definition as_scalar :: "int list \<Rightarrow> int result" where
  "as_scalar a = (case a of [x] \<Rightarrow> Ok x | _ \<Rightarrow> Raise ValueError)"

text \<open>\<^verbatim>\<open>xs[i] = v\<close> for an index produced by \<^verbatim>\<open>range\<close>.\<close>

definition store :: "'a list \<Rightarrow> nat \<Rightarrow> 'a \<Rightarrow> 'a list result" where
  "store xs i v = (if i < length xs then Ok (xs[i := v]) else Raise IndexError)"

text \<open>
  \<^verbatim>\<open>generate_trial_sequence(include_fillers)\<close>: ten runs of each of the lengths 3, 4 and 5,
  a compare trial followed by fillers (or compare trials only), in the order
  \<^verbatim>\<open>np.random.permutation\<close> returned (the parameter \<open>permorder\<close>), flattened.
\<close>

definition generate_trial_sequence :: "bool \<Rightarrow> nat list \<Rightarrow> string list result" where
  "generate_trial_sequence include_fillers permorder =
     (let other = (if include_fillers then ''filler'' else ''compare'');
          L3_trialtype = replicate 10 (''compare'' # replicate 2 other);
          L4_trialtype = replicate 10 (''compare'' # replicate 3 other);
          L5_trialtype = replicate 10 (''compare'' # replicate 4 other);
          type_sequence = concat [L3_trialtype, L4_trialtype, L5_trialtype]
      in bind (for_each [0..<length permorder]
                 (\<lambda>i acc. bind (getitem type_sequence (permorder ! i)) (\<lambda>run. Ok (acc @ [run]))) [])
           (\<lambda>permuted. Ok (concat permuted)))"

definition turn_index_to_context :: "int \<Rightarrow> int" where
  "turn_index_to_context randind = (if randind \<le> LOWR_ULIM then 1 else 2)"

text \<open>
  The settings \<^verbatim>\<open>args\<close> the functions read (\<^verbatim>\<open>define_hyperparams\<close>).
\<close>

record args =
  which_context :: int
  train_long :: bool
  label_context :: string
  all_fullrange :: bool
  include_fillers :: bool
  BPTT_len :: nat
  batch_size :: nat
  retain_hidden_state :: bool
  retrain_decoder :: bool
  train_lesion_freq :: real

text \<open>
  The loop that labels one sequence (\<^verbatim>\<open>for i in range(args.BPTT_len)\<close>, after the
  sequence has been sampled). \<open>target\<close>, \<open>allJValues\<close> and \<open>allRValues\<close> are the rows
  \<^verbatim>\<open>target[block, sample]\<close>, \<^verbatim>\<open>allJValues\<close> and \<^verbatim>\<open>allRValues\<close>. \<open>compare_target\<close> is
  the block under \<^verbatim>\<open>if trialtype==1:\<close>, which writes the label of a compare trial.
\<close>

record label_vars =
  rValue :: "int list option"
  judgeValue :: "int list option"
  target :: "label list"
  allJValues :: "real list list"
  allRValues :: "real list list"

definition compare_target :: "args \<Rightarrow> real list \<Rightarrow> nat \<Rightarrow> label_vars \<Rightarrow> label_vars result" where
  "compare_target a x i s =
     (let jv = turn_one_hot_to_integer x; s1 = s\<lparr>judgeValue := Some jv\<rparr> in
      case rValue s of
        Some rv \<Rightarrow>
          bind (as_scalar jv) (\<lambda>j.
          bind (as_scalar rv) (\<lambda>r.
          bind (store (target s1) i (if j > r then Val 1 else Val 0)) (\<lambda>t1.
          bind (if \<not> train_long a \<and>
                   ((j \<le> LOWR_ULIM \<and> r \<ge> HIGHR_LLIM) \<or> (j \<ge> HIGHR_LLIM \<and> r \<le> LOWR_ULIM))
                then store t1 i NaN else Ok t1) (\<lambda>t2.
          Ok (s1\<lparr>target := t2\<rparr>)))))
      | None \<Rightarrow> bind (store (target s1) i NaN) (\<lambda>t1. Ok (s1\<lparr>target := t1\<rparr>)))"

definition label_body ::
  "args \<Rightarrow> nat list \<Rightarrow> real list list \<Rightarrow> nat \<Rightarrow> label_vars \<Rightarrow> label_vars result" where
  "label_body a trialtypeinput input_sequence i s =
     bind (getitem trialtypeinput i) (\<lambda>trialtype.
     bind (getitem input_sequence i) (\<lambda>x.
     bind (if trialtype = 1 then compare_target a x i s else Ok s) (\<lambda>s2.
     bind (as_scalar (turn_one_hot_to_integer x)) (\<lambda>v.
     bind (turn_one_hot v TOTALMAXNUM) (\<lambda>jrow.
     bind (store (allJValues s2) i jrow) (\<lambda>aj.
     bind (case rValue s2 of
             None \<Rightarrow> Ok (replicate TOTALMAXNUM 0)
           | Some rv \<Rightarrow> bind (as_scalar rv) (\<lambda>r. turn_one_hot r TOTALMAXNUM)) (\<lambda>rrow.
     bind (store (allRValues s2) i rrow) (\<lambda>ar.
     Ok (s2\<lparr>allJValues := aj, allRValues := ar,
            rValue := (if trialtype = 1 then Some (turn_one_hot_to_integer x)
                       else rValue s2)\<rparr>)))))))))"

text \<open>
  The rows before the loop: \<^verbatim>\<open>rValue = None\<close>, \<^verbatim>\<open>judgeValue = None\<close>, two arrays of
  zeros, and the row of \<^verbatim>\<open>target\<close>, which \<^verbatim>\<open>np.empty\<close> left with whatever it held
  (\<open>garbage\<close>).
\<close>

definition label_init :: "nat \<Rightarrow> label list \<Rightarrow> label_vars" where
  "label_init n garbage =
     \<lparr>rValue = None, judgeValue = None, target = garbage,
      allJValues = replicate n (replicate TOTALMAXNUM 0),
      allRValues = replicate n (replicate TOTALMAXNUM 0)\<rparr>"

definition label_loop ::
  "args \<Rightarrow> nat list \<Rightarrow> real list list \<Rightarrow> label list \<Rightarrow> label_vars result" where
  "label_loop a trialtypeinput input_sequence garbage =
     for_each [0..<BPTT_len a] (label_body a trialtypeinput input_sequence)
       (label_init (BPTT_len a) garbage)"

section \<open>Sampling the sequences (create\_separate\_input\_data)\<close>

text \<open>
  The pseudo-random source, as the values its calls return, in call order: \<open>perms\<close> for
  \<^verbatim>\<open>np.random.permutation\<close>, \<open>draws\<close> for \<^verbatim>\<open>random.choice\<close> and \<^verbatim>\<open>random.randint\<close>. A
  draw \<open>r\<close> selects element \<open>r mod len\<close> of the sequence, or the integer
  \<open>lo + r mod (hi - lo + 1)\<close> of the range: every outcome the library can return is the
  image of some draw.
\<close>

record rnd =
  perms :: "nat list list"
  draws :: "nat list"

definition np_random_permutation :: "rnd \<Rightarrow> (nat list \<times> rnd) result" where
  "np_random_permutation g =
     (case perms g of [] \<Rightarrow> OutOfDraws | p # ps \<Rightarrow> Ok (p, g\<lparr>perms := ps\<rparr>))"

definition random_choice :: "'a list \<Rightarrow> rnd \<Rightarrow> ('a \<times> rnd) result" where
  "random_choice xs g =
     (if xs = [] then Raise IndexError
      else case draws g of [] \<Rightarrow> OutOfDraws
           | r # rs \<Rightarrow> Ok (xs ! (r mod length xs), g\<lparr>draws := rs\<rparr>))"

definition random_randint :: "int \<Rightarrow> int \<Rightarrow> rnd \<Rightarrow> (int \<times> rnd) result" where
  "random_randint lo hi g =
     (if hi < lo then Raise ValueError
      else case draws g of [] \<Rightarrow> OutOfDraws
           | r # rs \<Rightarrow> Ok (lo + int r mod (hi - lo + 1), g\<lparr>draws := rs\<rparr>))"

text \<open>
  The local variables of \<^verbatim>\<open>create_separate_input_data\<close> that outlive one iteration of
  its loops. \<open>None\<close> is a name not bound yet (reading it raises), and Python's \<^verbatim>\<open>None\<close>
  for \<open>previousFillerNum\<close> and \<open>previousTrialtype\<close>.
\<close>

record gen_vars =
  rng :: rnd
  firstTrialInContext :: bool
  judgementValue :: "int option"
  refValue :: "int option"
  randind :: "nat option"
  context_digit :: "int option"
  minNumerosity :: "int option"
  maxNumerosity :: "int option"
  input2 :: "real list option"
  contextinput :: "real list option"
  previousFillerNum :: "real list option"
  previousTrialtype :: "string option"
  type_sequence :: "string list"
  trialtypeinput :: "nat list"
  input_sequence :: "real list list"
  contextsequence :: "int list"
  contextinputsequence :: "real list list"

definition bound :: "'a option \<Rightarrow> 'a result" where
  "bound v = (case v of None \<Rightarrow> Raise UnboundLocalError | Some x \<Rightarrow> Ok x)"

lemma random_choice_shorter:
  "random_choice xs g = Ok (x, g') \<Longrightarrow> length (draws g') < length (draws g)"
  by (auto simp: random_choice_def split: if_splits list.splits)

lemma random_randint_shorter:
  "random_randint lo hi g = Ok (x, g') \<Longrightarrow> length (draws g') < length (draws g)"
  by (auto simp: random_randint_def split: if_splits list.splits)

text \<open>
  \<^verbatim>\<open>while refValue==judgementValue:\<close> draw the judged value again.
\<close>

function while_same_judgement :: "int list \<Rightarrow> gen_vars \<Rightarrow> gen_vars result" where
  "while_same_judgement randNumDistribution s =
     (if refValue s = judgementValue s then
        (case random_choice [0..<length randNumDistribution] (rng s) of
           Ok (ri, g) \<Rightarrow>
             (case getitem randNumDistribution ri of
                Ok v \<Rightarrow> while_same_judgement randNumDistribution
                          (s\<lparr>rng := g, randind := Some ri, judgementValue := Some v\<rparr>)
              | Raise e \<Rightarrow> Raise e
              | OutOfDraws \<Rightarrow> OutOfDraws)
         | Raise e \<Rightarrow> Raise e
         | OutOfDraws \<Rightarrow> OutOfDraws)
      else Ok s)"
  by pat_completeness auto
termination
  by (relation "measure (\<lambda>(d, s). length (draws (rng s)))")
     (auto dest: random_choice_shorter)

declare while_same_judgement.simps [simp del]

text \<open>
  \<^verbatim>\<open>while all(input2 == previousFillerNum):\<close> draw the filler again.
\<close>

function while_same_filler :: "gen_vars \<Rightarrow> gen_vars result" where
  "while_same_filler s =
     (if input2 s = previousFillerNum s then
        (case random_randint FULLR_LLIM FULLR_ULIM (rng s) of
           Ok (v, g) \<Rightarrow>
             (case turn_one_hot v TOTALMAXNUM of
                Ok oh \<Rightarrow> while_same_filler (s\<lparr>rng := g, input2 := Some oh\<rparr>)
              | Raise e \<Rightarrow> Raise e
              | OutOfDraws \<Rightarrow> OutOfDraws)
         | Raise e \<Rightarrow> Raise e
         | OutOfDraws \<Rightarrow> OutOfDraws)
      else Ok s)"
  by pat_completeness auto
termination
  by (relation "measure (\<lambda>s. length (draws (rng s)))")
     (auto dest: random_randint_shorter)

declare while_same_filler.simps [simp del]

text \<open>The branch \<^verbatim>\<open>if trial_type == 'compare':\<close> of the loop over the trials.\<close>

definition compare_trial :: "args \<Rightarrow> string \<Rightarrow> int list \<Rightarrow> nat \<Rightarrow> gen_vars \<Rightarrow> gen_vars result" where
  "compare_trial a phase randNumDistribution item s =
     (let indexDistribution = [0..<length randNumDistribution] in
      bind (if firstTrialInContext s \<and> item = 0 then
              bind (random_choice indexDistribution (rng s)) (\<lambda>(ri, g).
              bind (getitem randNumDistribution ri) (\<lambda>v.
              Ok (s\<lparr>rng := g, randind := Some ri, refValue := Some v\<rparr>)))
            else bind (bound (judgementValue s)) (\<lambda>j. Ok (s\<lparr>refValue := Some j\<rparr>))) (\<lambda>s1.
      bind (random_choice indexDistribution (rng s1)) (\<lambda>(ri, g).
      bind (getitem randNumDistribution ri) (\<lambda>v.
      bind (while_same_judgement randNumDistribution
              (s1\<lparr>rng := g, randind := Some ri, judgementValue := Some v\<rparr>)) (\<lambda>s2.
      bind (bound (judgementValue s2)) (\<lambda>j.
      bind (turn_one_hot j TOTALMAXNUM) (\<lambda>oh.
      bind (if all_fullrange a \<or> train_long a \<or> phase = ''test'' then
              bind (bound (randind s2)) (\<lambda>ri.
              bind (getitem randNumDistribution ri) (\<lambda>v.
              Ok (Some (turn_index_to_context v))))
            else Ok (context_digit s2)) (\<lambda>c.
      Ok (s2\<lparr>input2 := Some oh, context_digit := c\<rparr>)))))))))"

text \<open>The \<^verbatim>\<open>else\<close> branch: a filler trial.\<close>

definition filler_trial :: "args \<Rightarrow> gen_vars \<Rightarrow> gen_vars result" where
  "filler_trial a s =
     bind (random_randint FULLR_LLIM FULLR_ULIM (rng s)) (\<lambda>(v, g).
     bind (turn_one_hot v TOTALMAXNUM) (\<lambda>oh.
     bind (let s1 = s\<lparr>rng := g, input2 := Some oh\<rparr> in
           if previousFillerNum s1 \<noteq> None \<and> previousTrialtype s1 = Some ''compare''
           then while_same_filler s1 else Ok s1) (\<lambda>s2.
     let s3 = s2\<lparr>previousFillerNum := input2 s2\<rparr> in
     if all_fullrange a then
       bind (random_randint 1 (int NCONTEXTS) (rng s3)) (\<lambda>(c, g).
       Ok (s3\<lparr>rng := g, context_digit := Some c\<rparr>))
     else Ok s3)))"

text \<open>\<^verbatim>\<open># Define the context input to the network\<close>, by \<^verbatim>\<open>args.label_context\<close>.\<close>

definition context_input :: "args \<Rightarrow> gen_vars \<Rightarrow> gen_vars result" where
  "context_input a s =
     (if label_context a = ''true'' then
        bind (bound (context_digit s)) (\<lambda>c.
        bind (turn_one_hot c NCONTEXTS) (\<lambda>oh. Ok (s\<lparr>contextinput := Some oh\<rparr>)))
      else if label_context a = ''random'' then
        bind (random_randint 1 3 (rng s)) (\<lambda>(v, g).
        bind (turn_one_hot v NCONTEXTS) (\<lambda>oh. Ok (s\<lparr>rng := g, contextinput := Some oh\<rparr>)))
      else if label_context a = ''constant'' then
        bind (turn_one_hot 1 NCONTEXTS) (\<lambda>oh. Ok (s\<lparr>contextinput := Some oh\<rparr>))
      else Ok s)"

text \<open>One iteration of \<^verbatim>\<open>for item in range(args.BPTT_len)\<close>.\<close>

definition item_body :: "args \<Rightarrow> string \<Rightarrow> int list \<Rightarrow> nat \<Rightarrow> gen_vars \<Rightarrow> gen_vars result" where
  "item_body a phase randNumDistribution item s =
     bind (getitem (type_sequence s) item) (\<lambda>trial_type.
     bind (store (trialtypeinput s) item (if trial_type = ''compare'' then 1 else 0)) (\<lambda>tti.
     bind (if trial_type = ''compare''
           then compare_trial a phase randNumDistribution item (s\<lparr>trialtypeinput := tti\<rparr>)
           else filler_trial a (s\<lparr>trialtypeinput := tti\<rparr>)) (\<lambda>s1.
     bind (context_input a (s1\<lparr>previousTrialtype := Some trial_type\<rparr>)) (\<lambda>s2.
     bind (bound (input2 s2)) (\<lambda>x.
     bind (bound (context_digit s2)) (\<lambda>c.
     bind (bound (contextinput s2)) (\<lambda>ci.
     Ok (s2\<lparr>input_sequence := input_sequence s2 @ [x],
            contextsequence := contextsequence s2 @ [c],
            contextinputsequence := contextinputsequence s2 @ [ci]\<rparr>))))))))"

text \<open>
  The sampling of one sequence: the trial types are drawn, the per-sequence lists are
  reset, and the loop over the trials runs.
\<close>

definition sample_sequence :: "args \<Rightarrow> string \<Rightarrow> int list \<Rightarrow> gen_vars \<Rightarrow> gen_vars result" where
  "sample_sequence a phase randNumDistribution s =
     bind (np_random_permutation (rng s)) (\<lambda>(permorder, g).
     bind (generate_trial_sequence (include_fillers a) permorder) (\<lambda>ts.
     for_each [0..<BPTT_len a] (item_body a phase randNumDistribution)
       (s\<lparr>rng := g, type_sequence := ts, trialtypeinput := replicate (length ts) 0,
          input_sequence := [], contextsequence := [], contextinputsequence := [],
          previousFillerNum := None, previousTrialtype := None\<rparr>)))"

text \<open>
  One row of a dataset split: the entries of the arrays at one \<^verbatim>\<open>[block, sample]\<close>, under
  the keys of the saved dictionary.
\<close>

record row =
  ds_refValue :: "real list list"
  ds_judgementValue :: "real list list"
  ds_input :: "real list list"
  ds_label :: "label list"
  ds_index :: nat
  ds_context :: "real list list"
  ds_contextdigits :: "int list"
  ds_contextinputs :: "real list list"
  ds_trialtypeinputs :: "nat list"

text \<open>
  One iteration of \<^verbatim>\<open>for sample in range(int(N/Mblocks))\<close>: the sequence is sampled, the
  first sequence of a block leaves its last stimulus as the next reference, the labels are
  computed, and the rows are stored. \<^verbatim>\<open>trialTypes[block, sample] = type_sequence\<close> stores
  the whole list of trial types into a row of \<open>BPTT_len\<close> cells, which numpy refuses
  unless the lengths agree.
\<close>

definition sample_body ::
  "args \<Rightarrow> string \<Rightarrow> int list \<Rightarrow> label list \<Rightarrow> nat \<Rightarrow> gen_vars \<Rightarrow> (gen_vars \<times> row) result" where
  "sample_body a phase randNumDistribution garbage idx s =
     bind (sample_sequence a phase randNumDistribution s) (\<lambda>s1.
     bind (if firstTrialInContext s1 then
             (if input_sequence s1 = [] then Raise IndexError
              else bind (as_scalar (turn_one_hot_to_integer (last (input_sequence s1)))) (\<lambda>j.
                   Ok (s1\<lparr>judgementValue := Some j, firstTrialInContext := False\<rparr>)))
           else Ok s1) (\<lambda>s2.
     bind (label_loop a (trialtypeinput s2) (input_sequence s2) garbage) (\<lambda>lv.
     bind (for_each (contextsequence s2)
             (\<lambda>c acc. bind (turn_one_hot c NCONTEXTS) (\<lambda>oh. Ok (acc @ [oh]))) []) (\<lambda>contexts.
     if length (type_sequence s2) \<noteq> BPTT_len a then Raise ValueError
     else Ok (s2, \<lparr>ds_refValue = allRValues lv, ds_judgementValue = allJValues lv,
                   ds_input = input_sequence s2, ds_label = target lv, ds_index = idx,
                   ds_context = contexts, ds_contextdigits = contextsequence s2,
                   ds_contextinputs = contextinputsequence s2,
                   ds_trialtypeinputs = trialtypeinput s2\<rparr>)))))"

text \<open>
  The sample counts of \<^verbatim>\<open>constants.py\<close> the function reads. The file sets
  \<^verbatim>\<open>NTRAIN = 2880\<close>, \<^verbatim>\<open>NTEST = 480\<close> and \<^verbatim>\<open>MBLOCKS = 24\<close>; it does not define the three
  \<^verbatim>\<open>_LONG\<close> names the long-sequence regime reads.
\<close>

record dataset_consts =
  NTRAIN :: nat
  NTEST :: nat
  MBLOCKS :: nat
  NTRAIN_LONG :: nat
  NTEST_LONG :: nat
  MBLOCKS_LONG :: nat

definition MTESTSETS :: nat where "MTESTSETS = 2"

text \<open>
  \<^verbatim>\<open>for block in range(Mblocks)\<close>: the context and the range of the block
  (\<^verbatim>\<open>block < Mblocks/const.NCONTEXTS\<close> divides as floats), then its distribution.
\<close>

definition block_setup :: "args \<Rightarrow> string \<Rightarrow> nat \<Rightarrow> nat \<Rightarrow> gen_vars \<Rightarrow> gen_vars" where
  "block_setup a phase Mblocks block s =
     (if phase = ''train'' then
        (if \<not> train_long a then
           (if which_context a = 0 then
              (if real block < real Mblocks / real NCONTEXTS then
                 s\<lparr>context_digit := Some 1, minNumerosity := Some LOWR_LLIM,
                   maxNumerosity := Some LOWR_ULIM\<rparr>
               else if real block < 2 * (real Mblocks / real NCONTEXTS) then
                 s\<lparr>context_digit := Some 2, minNumerosity := Some HIGHR_LLIM,
                   maxNumerosity := Some HIGHR_ULIM\<rparr>
               else s)
            else if which_context a = 1 then
              s\<lparr>context_digit := Some 1, minNumerosity := Some LOWR_LLIM,
                maxNumerosity := Some LOWR_ULIM\<rparr>
            else if which_context a = 2 then
              s\<lparr>context_digit := Some 2, minNumerosity := Some HIGHR_LLIM,
                maxNumerosity := Some HIGHR_ULIM\<rparr>
            else s)
         else s\<lparr>minNumerosity := Some LOWR_ULIM, maxNumerosity := Some HIGHR_LLIM\<rparr>)
      else s\<lparr>minNumerosity := Some FULLR_LLIM, maxNumerosity := Some FULLR_ULIM\<rparr>)"

definition block_distribution :: "args \<Rightarrow> string \<Rightarrow> gen_vars \<Rightarrow> int list result" where
  "block_distribution a phase s =
     (if train_long a \<and> phase = ''train'' then Ok (py_range LOWR_ULIM (HIGHR_LLIM + 1))
      else if all_fullrange a then
        Ok (concat [py_range FULLR_LLIM (FULLR_ULIM + 1), py_range LOWR_LLIM (LOWR_ULIM + 1),
                    py_range HIGHR_LLIM (HIGHR_ULIM + 1)])
      else bind (bound (minNumerosity s)) (\<lambda>lo.
           bind (bound (maxNumerosity s)) (\<lambda>hi. Ok (py_range lo (hi + 1)))))"

text \<open>
  One block: \<open>K = int(N/Mblocks)\<close> sequences, the first of them with
  \<^verbatim>\<open>firstTrialInContext = True\<close>. \<open>garbage block sample\<close> is what \<^verbatim>\<open>np.empty\<close> left in
  \<^verbatim>\<open>target[block, sample]\<close>; \<open>block * K + sample\<close> is the entry of the reshaped index array.
\<close>

definition block_body ::
  "args \<Rightarrow> string \<Rightarrow> nat \<Rightarrow> nat \<Rightarrow> (nat \<Rightarrow> nat \<Rightarrow> label list) \<Rightarrow> nat
     \<Rightarrow> gen_vars \<times> row list list \<Rightarrow> (gen_vars \<times> row list list) result" where
  "block_body a phase Mblocks K garbage block sb =
     (let s1 = block_setup a phase Mblocks block (fst sb) in
      bind (block_distribution a phase s1) (\<lambda>randNumDistribution.
      bind (for_each [0..<K]
              (\<lambda>sample sr.
                 bind (sample_body a phase randNumDistribution (garbage block sample)
                         (block * K + sample) (fst sr)) (\<lambda>(s', r).
                 Ok (s', snd sr @ [r])))
              (s1\<lparr>firstTrialInContext := True\<rparr>, [])) (\<lambda>(s2, rows).
      Ok (s2, snd sb @ [rows]))))"

text \<open>
  One phase: \<open>phase_N\<close> and \<open>phase_Mblocks\<close> are the \<^verbatim>\<open>N\<close> and \<^verbatim>\<open>Mblocks\<close> the phase sets
  for itself. \<^verbatim>\<open>int(N/Mblocks)\<close> sizes the arrays, and the array of the \<open>N\<close> indices is
  reshaped to \<^verbatim>\<open>(Mblocks, int(N/Mblocks), 1)\<close>, which numpy refuses (\<open>ValueError\<close>) unless
  the sizes agree. \<^verbatim>\<open>flatten_first_dim\<close> then joins the blocks in order.
\<close>

definition phase_N :: "args \<Rightarrow> dataset_consts \<Rightarrow> string \<Rightarrow> nat" where
  "phase_N a c phase =
     (let Ntrain = (if \<not> train_long a then NTRAIN c else NTRAIN_LONG c);
          Ntest = (if \<not> train_long a then NTEST c else NTEST_LONG c)
      in if phase = ''train'' then Ntrain else Ntest)"

definition phase_Mblocks :: "args \<Rightarrow> dataset_consts \<Rightarrow> string \<Rightarrow> nat" where
  "phase_Mblocks a c phase =
     (if phase = ''train'' then (if train_long a then MBLOCKS_LONG c else MBLOCKS c)
      else MBLOCKS c)"

text \<open>
  What goes wrong when a phase is set up, if anything: the exception and the text it
  carries. The code makes no check of its own; \<^verbatim>\<open>N/Mblocks\<close> divides by zero when there is
  no block, and numpy refuses the reshape of the \<open>N\<close> indices to
  \<^verbatim>\<open>(Mblocks, int(N/Mblocks), 1)\<close> with its own message. \<open>py_str\<close> is \<^verbatim>\<open>str\<close> on a natural
  number and \<open>shape_str\<close> the way numpy prints a shape of two or more dimensions.
\<close>

fun py_str :: "nat \<Rightarrow> string" where
  "py_str n =
     (if n < 10 then [''0123456789'' ! n]
      else py_str (n div 10) @ [''0123456789'' ! (n mod 10)])"

declare py_str.simps [simp del]

definition shape_str :: "nat list \<Rightarrow> string" where
  "shape_str shape =
     ''('' @ (case shape of [] \<Rightarrow> [] | n # ns \<Rightarrow> py_str n @ concat (map (\<lambda>k. '','' @ py_str k) ns))
       @ '')''"

definition reshape_message :: "nat \<Rightarrow> nat list \<Rightarrow> string" where
  "reshape_message n shape =
     ''cannot reshape array of size '' @ py_str n @ '' into shape '' @ shape_str shape"

definition phase_failure :: "args \<Rightarrow> dataset_consts \<Rightarrow> string \<Rightarrow> (error \<times> string) option" where
  "phase_failure a c phase =
     (let N = phase_N a c phase; Mblocks = phase_Mblocks a c phase
      in if Mblocks = 0 then Some (ZeroDivisionError, ''division by zero'')
         else let K = N div Mblocks in
           if Mblocks * K * 1 \<noteq> N then Some (ValueError, reshape_message N [Mblocks, K, 1])
           else None)"

definition phase_data ::
  "args \<Rightarrow> dataset_consts \<Rightarrow> (nat \<Rightarrow> nat \<Rightarrow> label list) \<Rightarrow> string \<Rightarrow> gen_vars
     \<Rightarrow> (gen_vars \<times> row list) result" where
  "phase_data a c garbage phase s =
     (case phase_failure a c phase of
        Some (e, msg) \<Rightarrow> Raise e
      | None \<Rightarrow>
          let N = phase_N a c phase; Mblocks = phase_Mblocks a c phase; K = N div Mblocks
          in bind (for_each [0..<Mblocks] (block_body a phase Mblocks K garbage) (s, []))
               (\<lambda>(s', blocks). Ok (s', concat blocks)))"

text \<open>
  The whole function: the phases \<^verbatim>\<open>['train', 'test', 'test']\<close>, and the dictionary that
  is saved (\<^verbatim>\<open>trainset\<close>, \<^verbatim>\<open>testset\<close>, \<^verbatim>\<open>crossval_testset\<close>). \<open>garbage p\<close> is the content
  \<^verbatim>\<open>np.empty\<close> left in \<^verbatim>\<open>target\<close> in the phase numbered \<open>p\<close>.
\<close>

record phase_vars =
  vars :: gen_vars
  trainset :: "row list option"
  testsets :: "row list list"
  whichtestset :: nat

definition phase_body ::
  "args \<Rightarrow> dataset_consts \<Rightarrow> (nat \<Rightarrow> nat \<Rightarrow> nat \<Rightarrow> label list) \<Rightarrow> string list \<Rightarrow> nat
     \<Rightarrow> phase_vars \<Rightarrow> phase_vars result" where
  "phase_body a c garbage phases p st =
     bind (getitem phases p) (\<lambda>phase.
     bind (phase_data a c (garbage p) phase (vars st)) (\<lambda>(s', rows).
     if phase = ''train'' then Ok (st\<lparr>vars := s', trainset := Some rows\<rparr>)
     else bind (store (testsets st) (whichtestset st) rows) (\<lambda>ts.
          Ok (st\<lparr>vars := s', testsets := ts, whichtestset := Suc (whichtestset st)\<rparr>))))"

definition create_separate_input_data ::
  "args \<Rightarrow> dataset_consts \<Rightarrow> (nat \<Rightarrow> nat \<Rightarrow> nat \<Rightarrow> label list) \<Rightarrow> gen_vars
     \<Rightarrow> (row list \<times> row list \<times> row list) result" where
  "create_separate_input_data a c garbage s0 =
     (let phases = map (\<lambda>i. if i = 0 then ''train'' else ''test'') [0..<MTESTSETS + 1] in
      bind (for_each [0..<length phases] (phase_body a c garbage phases)
              \<lparr>vars = s0, trainset = None, testsets = replicate MTESTSETS [], whichtestset = 0\<rparr>)
        (\<lambda>st.
      bind (getitem (testsets st) 0) (\<lambda>testset.
      bind (getitem (testsets st) 1) (\<lambda>crossvalset.
      bind (bound (trainset st)) (\<lambda>tr.
      Ok (tr, testset, crossvalset))))))"

section \<open>Hand-coded baselines (magnitude\_network.py)\<close>

text \<open>\<^verbatim>\<open>xs[i]\<close> for any Python integer: a negative index counts from the end.\<close>

definition py_index :: "'a list \<Rightarrow> int \<Rightarrow> 'a result" where
  "py_index xs i =
     (let n = int (length xs); j = (if i < 0 then n + i else i)
      in if 0 \<le> j \<and> j < n then Ok (xs ! nat j) else Raise IndexError)"

text \<open>\<^verbatim>\<open>response == label\<close>: an integer against a float; NaN equals nothing.\<close>

definition eq_label :: "int \<Rightarrow> label \<Rightarrow> bool" where
  "eq_label response l = (case l of NaN \<Rightarrow> False | Val r \<Rightarrow> real_of_int response = r)"

definition get_local_model_response :: "int \<Rightarrow> int \<Rightarrow> label \<Rightarrow> int result" where
  "get_local_model_response number context l =
     (let localmedians = [CONTEXT_FULL_MEAN, CONTEXT_LOW_MEAN, CONTEXT_HIGH_MEAN] in
      bind (py_index localmedians (context - 1)) (\<lambda>median.
      let response = (if real_of_int number > median then 1 else 0);
          iscorrect = (if eq_label response l then 1 else 0)
      in Ok iscorrect))"

definition get_global_model_response :: "int \<Rightarrow> int \<Rightarrow> label \<Rightarrow> int result" where
  "get_global_model_response number context l =
     (let globalmedian = GLOBAL_MEAN;
          response = (if real_of_int number > globalmedian then 1 else 0);
          iscorrect = (if eq_label response l then 1 else 0)
      in Ok iscorrect)"

section \<open>The recurrent loops (magnitude\_network.py)\<close>

text \<open>
  A two-dimensional tensor is the list of its rows. A batch is held by position, as the
  loops read it: \<open>d_input d ! i\<close> is \<^verbatim>\<open>inputs[:, i]\<close> (one row per sequence of the batch),
  \<open>d_label d ! i\<close> is \<^verbatim>\<open>labels[i]\<close> (the label of the first sequence of the batch, the only
  one the loops read), \<open>d_trialtypeinput d ! i\<close> is \<^verbatim>\<open>trialtype[:, i]\<close> (one one-element row
  per sequence).
\<close>

type_synonym tensor = "real list list"

record batch =
  d_input :: "tensor list"
  d_label :: "label list"
  d_context :: "tensor list"
  d_contextinput :: "tensor list"
  d_trialtypeinput :: "tensor list"

text \<open>
  The network as the loops use it: \<^verbatim>\<open>model(x, hidden)\<close> returns the output and the new
  hidden state, and leaves the activations of the hidden layer in \<^verbatim>\<open>fc1_activations\<close>. The
  weights are inside \<open>forward\<close> and \<open>fc1_activations\<close>.
\<close>

record model =
  recurrent_size :: nat
  hidden_noise :: real
  forward :: "tensor \<Rightarrow> tensor \<Rightarrow> tensor \<times> tensor"
  fc1_activations :: "tensor \<Rightarrow> tensor \<Rightarrow> tensor"

definition get_activations :: "model \<Rightarrow> tensor \<Rightarrow> tensor \<Rightarrow> tensor \<times> tensor \<times> tensor" where
  "get_activations m x h = (snd (forward m x h), fc1_activations m x h, fst (forward m x h))"

definition torch_zeros :: "nat \<Rightarrow> nat \<Rightarrow> tensor" where
  "torch_zeros r c = replicate r (replicate c 0)"

definition full_like_0 :: "tensor \<Rightarrow> tensor" where
  "full_like_0 t = map (map (\<lambda>_. 0)) t"

text \<open>\<^verbatim>\<open>torch.cat((x, y, z), 1)\<close>: the rows of three tensors joined, row by row.\<close>

definition torch_cat :: "tensor \<Rightarrow> tensor \<Rightarrow> tensor \<Rightarrow> tensor" where
  "torch_cat x y z = map (\<lambda>(u, v, w). u @ v @ w) (zip x (zip y z))"

definition tensor_add :: "tensor \<Rightarrow> tensor \<Rightarrow> tensor" where
  "tensor_add x y = map2 (map2 (+)) x y"

text \<open>\<^verbatim>\<open>trialtype[0, i]\<close>, read from \<^verbatim>\<open>trialtype[:, i]\<close>.\<close>

definition first_flag :: "tensor \<Rightarrow> real result" where
  "first_flag t = bind (getitem t 0) (\<lambda>row. getitem row 0)"

text \<open>
  The noise added to the hidden state: \<^verbatim>\<open>np.random.normal(0, model.hidden_noise, n)\<close> is
  \<open>hidden_noise\<close> times standard normal draws (\<open>z r c\<close> for the entry in row \<open>r\<close> and column
  \<open>c\<close>), reshaped to the shape of \<open>hidden\<close>; numpy refuses a negative scale.
\<close>

definition noise_tensor :: "model \<Rightarrow> (nat \<Rightarrow> nat \<Rightarrow> real) \<Rightarrow> tensor \<Rightarrow> tensor" where
  "noise_tensor m z h =
     map (\<lambda>r. map (\<lambda>c. 0 + hidden_noise m * z r c) [0..<length (h ! r)]) [0..<length h]"

definition noise_like :: "model \<Rightarrow> (nat \<Rightarrow> nat \<Rightarrow> real) \<Rightarrow> tensor \<Rightarrow> tensor result" where
  "noise_like m z h =
     (if hidden_noise m < 0 then Raise ValueError else Ok (noise_tensor m z h))"

text \<open>
  \<^verbatim>\<open>answer_correct(output, label)\<close>: one prediction per row of the output, \<open>1\<close> when the
  output exceeds \<open>0.5\<close>, and the number of predictions equal to the label.
\<close>

definition squeeze_row :: "real list \<Rightarrow> real result" where
  "squeeze_row row = (case row of [o'] \<Rightarrow> Ok o' | _ \<Rightarrow> Raise ValueError)"

definition answer_correct :: "tensor \<Rightarrow> label \<Rightarrow> nat result" where
  "answer_correct output l =
     bind (for_each output (\<lambda>row out. bind (squeeze_row row) (\<lambda>v. Ok (out @ [v]))) [])
       (\<lambda>out.
     let pred = map (\<lambda>v. if v > 1 / 2 then 1 else (0::int)) out
     in Ok (length (filter (\<lambda>p. eq_label p l) pred)))"

text \<open>
  The values the pseudo-random source returns inside the loops: \<open>uniform b i\<close> for
  \<^verbatim>\<open>random.random()\<close> at position \<open>i\<close> of batch \<open>b\<close>, \<open>normal b i\<close> for the standard normal
  draws before step \<open>i\<close> of batch \<open>b\<close>.
\<close>

record sources =
  uniform :: "nat \<Rightarrow> nat \<Rightarrow> real"
  normal :: "nat \<Rightarrow> nat \<Rightarrow> nat \<Rightarrow> nat \<Rightarrow> real"

subsection \<open>recurrent\_train\<close>

record input_vars =
  recurrentinputs :: "tensor list"
  lesionRecord :: "real list"
  alternate_lesion_trial :: bool

text \<open>The first loop of a batch: the input of every position is put together.\<close>

definition train_input_body ::
  "args \<Rightarrow> (nat \<Rightarrow> real) \<Rightarrow> batch \<Rightarrow> nat \<Rightarrow> input_vars \<Rightarrow> input_vars result" where
  "train_input_body a u d i s =
     bind (getitem (d_contextinput d) i) (\<lambda>context.
     bind (getitem (d_input d) i) (\<lambda>x.
     bind (getitem (d_trialtypeinput d) i) (\<lambda>tt.
     bind (first_flag tt) (\<lambda>flag.
     bind (if flag = 0 then Ok (full_like_0 context, x, lesionRecord s)
           else if retrain_decoder a then
             (if alternate_lesion_trial s then
                bind (store (lesionRecord s) i 1) (\<lambda>lr. Ok (context, full_like_0 x, lr))
              else Ok (context, x, lesionRecord s))
           else
             (if u i < train_lesion_freq a then
                bind (store (lesionRecord s) i 1) (\<lambda>lr. Ok (context, full_like_0 x, lr))
              else Ok (context, x, lesionRecord s))) (\<lambda>(context_in, lesionedinput, lr).
     Ok (s\<lparr>recurrentinputs := recurrentinputs s @ [torch_cat lesionedinput context_in tt],
            lesionRecord := lr,
            alternate_lesion_trial := (if alternate_lesion_trial s then False else True)\<rparr>))))))"

definition train_inputs :: "args \<Rightarrow> (nat \<Rightarrow> real) \<Rightarrow> batch \<Rightarrow> input_vars result" where
  "train_inputs a u d =
     (let sequenceLength = length (d_input d) in
      for_each [0..<sequenceLength] (train_input_body a u d)
        \<lparr>recurrentinputs = [], lesionRecord = replicate sequenceLength 0,
         alternate_lesion_trial = True\<rparr>)"

text \<open>
  The variables of the loops over the steps. \<open>loss\<close> is \<open>None\<close> while it still is the
  Python integer \<open>0\<close> the batch starts with, and a tensor after the first qualifying step.
\<close>

record sim_vars =
  hidden :: tensor
  latentstate :: tensor
  correct :: nat
  trials_counter :: nat

record train_vars = sim_vars +
  net :: model
  loss :: "real option"
  train_loss :: real
  all_trials_counter :: nat

definition train_step ::
  "(tensor \<Rightarrow> label \<Rightarrow> real) \<Rightarrow> (nat \<Rightarrow> nat \<Rightarrow> nat \<Rightarrow> real) \<Rightarrow> batch \<Rightarrow> tensor list \<Rightarrow> nat
     \<Rightarrow> train_vars \<Rightarrow> train_vars result" where
  "train_step criterion z d inputs item_idx s =
     (let sequenceLength = length (d_input d) in
      bind (noise_like (net s) (z item_idx) (hidden s)) (\<lambda>noise.
      bind (getitem inputs item_idx) (\<lambda>x.
      let (output, h) = forward (net s) x (tensor_add (hidden s) noise);
          s1 = s\<lparr>hidden := h,
                 latentstate := (if int item_idx = int sequenceLength - 2 then h
                                 else latentstate s)\<rparr> in
      bind (getitem (d_label d) item_idx) (\<lambda>l.
      bind (getitem (d_trialtypeinput d) item_idx) (\<lambda>tt.
      bind (first_flag tt) (\<lambda>flag.
      bind (if l \<noteq> NaN \<and> flag = 1 then
              bind (answer_correct output l) (\<lambda>n.
              Ok (s1\<lparr>loss := Some ((case loss s1 of None \<Rightarrow> 0 | Some v \<Rightarrow> v) + criterion output l),
                     correct := correct s1 + n,
                     trials_counter := trials_counter s1 + 1\<rparr>))
            else Ok s1) (\<lambda>s2.
      Ok (s2\<lparr>all_trials_counter := all_trials_counter s2 + 1\<rparr>))))))))"

text \<open>
  The hidden state a sequence starts from: zeros, or the state kept from the previous
  sequence (\<^verbatim>\<open>if not args.retain_hidden_state: ... else: hidden = latentstate\<close>).
\<close>

definition start_hidden :: "args \<Rightarrow> model \<Rightarrow> tensor \<Rightarrow> tensor" where
  "start_hidden a m lat =
     (if \<not> retain_hidden_state a then torch_zeros (batch_size a) (recurrent_size m) else lat)"

text \<open>
  One batch. \<open>optimizer_step\<close> is the effect of \<^verbatim>\<open>loss.backward()\<close> and
  \<^verbatim>\<open>optimizer.step()\<close> on the network; \<^verbatim>\<open>loss.backward()\<close> on the integer \<open>0\<close> raises.
\<close>

definition train_batch ::
  "args \<Rightarrow> (tensor \<Rightarrow> label \<Rightarrow> real) \<Rightarrow> (model \<Rightarrow> batch \<Rightarrow> tensor list \<Rightarrow> tensor \<Rightarrow> model)
     \<Rightarrow> sources \<Rightarrow> nat \<times> batch \<Rightarrow> train_vars \<Rightarrow> train_vars result" where
  "train_batch a criterion optimizer_step src bd s =
     (let batch_idx = fst bd; d = snd bd; sequenceLength = length (d_input d) in
      bind (train_inputs a (uniform src batch_idx) d) (\<lambda>iv.
      let h0 = start_hidden a (net s) (latentstate s) in
      bind (for_each [0..<sequenceLength]
              (train_step criterion (normal src batch_idx) d (recurrentinputs iv))
              (s\<lparr>hidden := h0, loss := None\<rparr>)) (\<lambda>s1.
      case loss s1 of
        None \<Rightarrow> Raise AttributeError
      | Some v \<Rightarrow>
          Ok (s1\<lparr>net := optimizer_step (net s1) d (recurrentinputs iv) h0,
                 train_loss := train_loss s1 + v\<rparr>))))"

definition enumerate :: "'a list \<Rightarrow> (nat \<times> 'a) list" where
  "enumerate xs = zip [0..<length xs] xs"

definition train_init :: "args \<Rightarrow> model \<Rightarrow> train_vars" where
  "train_init a m =
     \<lparr>hidden = torch_zeros (batch_size a) (recurrent_size m),
      latentstate = torch_zeros (batch_size a) (recurrent_size m),
      correct = 0, trials_counter = 0, net = m, loss = None, train_loss = 0,
      all_trials_counter = 0\<rparr>"

text \<open>
  \<^verbatim>\<open>recurrent_train\<close>: the mean loss and the accuracy over the qualifying trials, and the
  network as the updates left it.
\<close>

definition recurrent_train ::
  "args \<Rightarrow> (tensor \<Rightarrow> label \<Rightarrow> real) \<Rightarrow> (model \<Rightarrow> batch \<Rightarrow> tensor list \<Rightarrow> tensor \<Rightarrow> model)
     \<Rightarrow> sources \<Rightarrow> model \<Rightarrow> batch list \<Rightarrow> (real \<times> real \<times> model) result" where
  "recurrent_train a criterion optimizer_step src m train_loader =
     bind (for_each (enumerate train_loader) (train_batch a criterion optimizer_step src)
             (train_init a m)) (\<lambda>s.
     if trials_counter s = 0 then Raise ZeroDivisionError
     else Ok (train_loss s / real (trials_counter s),
              100 * real (correct s) / real (trials_counter s), net s))"

subsection \<open>recurrent\_test\<close>

definition test_input_body :: "batch \<Rightarrow> nat \<Rightarrow> tensor list \<Rightarrow> tensor list result" where
  "test_input_body d i inputs =
     bind (getitem (d_contextinput d) i) (\<lambda>context.
     bind (getitem (d_trialtypeinput d) i) (\<lambda>tt.
     bind (first_flag tt) (\<lambda>flag.
     let context_in = (if flag = 0 then full_like_0 context else context) in
     bind (getitem (d_input d) i) (\<lambda>x.
     Ok (inputs @ [torch_cat x context_in tt])))))"

definition test_inputs :: "batch \<Rightarrow> tensor list result" where
  "test_inputs d = for_each [0..<length (d_input d)] (test_input_body d) []"

text \<open>
  A line of the trial log. \<open>ref_Value\<close> starts each sequence as NaN (\<open>None\<close>).
\<close>

record trial_line =
  judge_value :: int
  line_ref_Value :: "int option"
  model_guess :: int
  dataset_label :: label
  line_answer :: nat
  misclassified :: bool

text \<open>
  \<^verbatim>\<open>hidden.add_(noise)\<close> adds in place. \<open>aliased\<close> holds while \<open>hidden\<close> and
  \<open>latentstate\<close> are one tensor (after \<^verbatim>\<open>hidden = latentstate\<close>, and after
  \<^verbatim>\<open>latentstate = hidden.detach()\<close>, which shares the storage), so that the addition
  changes both.
\<close>

record test_vars = sim_vars +
  aliased :: bool
  test_loss :: real
  ref_Value :: "int option"
  trial_log :: "trial_line list"

definition first_one :: "real list \<Rightarrow> int result" where
  "first_one first_eight =
     (case filter (\<lambda>i. first_eight ! i = 1) [0..<length first_eight] of
        [] \<Rightarrow> Raise IndexError
      | i # _ \<Rightarrow> Ok (int i + 1))"

definition tensor_scalar :: "tensor \<Rightarrow> real result" where
  "tensor_scalar t = (case concat t of [v] \<Rightarrow> Ok v | _ \<Rightarrow> Raise RuntimeError)"

definition test_step ::
  "model \<Rightarrow> (tensor \<Rightarrow> label \<Rightarrow> real) \<Rightarrow> (nat \<Rightarrow> nat \<Rightarrow> nat \<Rightarrow> real) \<Rightarrow> batch \<Rightarrow> tensor list \<Rightarrow> nat
     \<Rightarrow> test_vars \<Rightarrow> test_vars result" where
  "test_step m criterion z d inputs item_idx s =
     (let sequenceLength = length (d_input d) in
      bind (noise_like m (z item_idx) (hidden s)) (\<lambda>noise.
      let h1 = tensor_add (hidden s) noise;
          lat1 = (if aliased s then h1 else latentstate s) in
      bind (getitem inputs item_idx) (\<lambda>x.
      let (output, h) = forward m x h1;
          snapshot = (int item_idx = int sequenceLength - 2);
          s1 = s\<lparr>hidden := h, latentstate := (if snapshot then h else lat1),
                 aliased := snapshot\<rparr> in
      bind (getitem (d_label d) item_idx) (\<lambda>l.
      bind (getitem (d_trialtypeinput d) item_idx) (\<lambda>tt.
      bind (first_flag tt) (\<lambda>flag.
      if l \<noteq> NaN \<and> flag = 1 then
        bind (answer_correct output l) (\<lambda>answer.
        bind (getitem x 0) (\<lambda>row0.
        bind (first_one (take TOTALMAXNUM row0)) (\<lambda>jv.
        bind (tensor_scalar output) (\<lambda>out.
        let guess = (if out > 1 / 2 then 1 else 0);
            line = \<lparr>judge_value = jv, line_ref_Value = ref_Value s1, model_guess = guess,
                    dataset_label = l, line_answer = answer,
                    misclassified = ((\<not> eq_label guess l \<and> answer = 1)
                                     \<or> (eq_label guess l \<and> answer = 0))\<rparr>
        in Ok (s1\<lparr>test_loss := test_loss s1 + criterion output l,
                  correct := correct s1 + answer,
                  trial_log := trial_log s1 @ [line],
                  ref_Value := Some jv,
                  trials_counter := trials_counter s1 + 1\<rparr>)))))
      else Ok s1))))))"

definition test_batch ::
  "args \<Rightarrow> model \<Rightarrow> (tensor \<Rightarrow> label \<Rightarrow> real) \<Rightarrow> sources \<Rightarrow> nat \<times> batch \<Rightarrow> test_vars
     \<Rightarrow> test_vars result" where
  "test_batch a m criterion src bd s =
     (let batch_idx = fst bd; d = snd bd in
      bind (test_inputs d) (\<lambda>inputs.
      let s0 = s\<lparr>hidden := start_hidden a m (latentstate s),
                   aliased := retain_hidden_state a\<rparr> in
      for_each [0..<length (d_input d)] (test_step m criterion (normal src batch_idx) d inputs)
        (s0\<lparr>ref_Value := None\<rparr>)))"

definition test_init :: "args \<Rightarrow> model \<Rightarrow> test_vars" where
  "test_init a m =
     \<lparr>hidden = torch_zeros (batch_size a) (recurrent_size m),
      latentstate = torch_zeros (batch_size a) (recurrent_size m),
      correct = 0, trials_counter = 0, aliased = False, test_loss = 0, ref_Value = None,
      trial_log = []\<rparr>"

text \<open>
  \<^verbatim>\<open>recurrent_test\<close>: the mean loss, the accuracy, and the lines appended to the trial
  log. The directory of the log, \<^verbatim>\<open>const.TRIALS_DIRECTORY\<close>, is not among the constants of
  \<^verbatim>\<open>constants.py\<close>; the path of the log is taken as given and the log is the list of its
  lines.
\<close>

definition recurrent_test ::
  "args \<Rightarrow> model \<Rightarrow> (tensor \<Rightarrow> label \<Rightarrow> real) \<Rightarrow> sources \<Rightarrow> batch list
     \<Rightarrow> (real \<times> real \<times> trial_line list) result" where
  "recurrent_test a m criterion src test_loader =
     bind (for_each (enumerate test_loader) (test_batch a m criterion src) (test_init a m))
       (\<lambda>s.
     if trials_counter s = 0 then Raise ZeroDivisionError
     else Ok (test_loss s / real (trials_counter s),
              100 * real (correct s) / real (trials_counter s), trial_log s))"

subsection \<open>recurrent\_lesion\_test\<close>

definition lesion_input_body :: "batch \<Rightarrow> nat \<Rightarrow> tensor list \<Rightarrow> tensor list result" where
  "lesion_input_body d i inputs =
     bind (getitem (d_contextinput d) i) (\<lambda>context.
     bind (getitem (d_trialtypeinput d) i) (\<lambda>tt.
     bind (first_flag tt) (\<lambda>flag.
     let inputcontext = (if flag = 0 then full_like_0 context else context) in
     bind (getitem (d_input d) i) (\<lambda>x.
     Ok (inputs @ [torch_cat x inputcontext tt])))))"

definition lesion_inputs :: "batch \<Rightarrow> tensor list result" where
  "lesion_inputs d = for_each [0..<length (d_input d)] (lesion_input_body d) []"

text \<open>
  \<^verbatim>\<open>trialtype[:,idx]==1\<close> as a condition: the truth value of a tensor, which torch gives
  for one element only.
\<close>

definition flag_is_one :: "tensor \<Rightarrow> bool result" where
  "flag_is_one tt = bind (tensor_scalar tt) (\<lambda>v. Ok (v = 1))"

text \<open>
  The loop backwards from the assessment point (\<^verbatim>\<open>for item_idx in range(assess_idx-1,-1,-1)\<close>):
  the state is \<open>(lesionRecord, isPrevCompareTrial)\<close>; \<open>u item_idx\<close> is the value
  \<^verbatim>\<open>random.random()\<close> returns there.
\<close>

definition mark_body ::
  "real \<Rightarrow> (nat \<Rightarrow> real) \<Rightarrow> batch \<Rightarrow> nat \<Rightarrow> real list \<times> bool \<Rightarrow> (real list \<times> bool) result" where
  "mark_body lesionFrequency u d item_idx st =
     bind (getitem (d_trialtypeinput d) item_idx) (\<lambda>tt.
     bind (flag_is_one tt) (\<lambda>cmp.
     if cmp \<and> snd st then
       bind (store (fst st) item_idx 1) (\<lambda>lr. Ok (lr, False))
     else if cmp then
       (if u item_idx < lesionFrequency then
          bind (store (fst st) item_idx 1) (\<lambda>lr. Ok (lr, snd st))
        else Ok st)
     else Ok st))"

definition mark_lesions ::
  "real \<Rightarrow> (nat \<Rightarrow> real) \<Rightarrow> batch \<Rightarrow> nat \<Rightarrow> real list result" where
  "mark_lesions lesionFrequency u d assess_idx =
     bind (for_each (rev [0..<assess_idx]) (mark_body lesionFrequency u d)
             (replicate (length (d_input d)) 0, True)) (\<lambda>st. Ok (fst st))"

text \<open>\<^verbatim>\<open>row[lo:hi] = torch.full_like(row[lo:hi], 0)\<close>.\<close>

definition zero_slice :: "nat \<Rightarrow> nat \<Rightarrow> real list \<Rightarrow> real list" where
  "zero_slice lo hi row = take lo row @ map (\<lambda>_. 0) (take (hi - lo) (drop lo row)) @ drop hi row"

record assessment =
  assess_number :: int
  a_lesion_number :: "int list"
  lesion_perf :: nat
  overall_perf :: nat
  desired_lesionF :: real
  underlying_context :: int
  a_assess_idx :: nat
  compare_idx :: nat
  localmodel_perf :: int
  globalmodel_perf :: int
  a_post_lesion_activations :: tensor

record lesion_vars =
  l_hidden :: tensor
  l_latentstate :: tensor
  l_aliased :: bool
  tmpinputs :: "tensor list option"
  lesion_number :: "int list option"
  lesionperf :: "nat option"
  post_lesion_activations :: "tensor option"
  overallperf :: nat
  ncomparetrials :: nat
  n_sequences :: nat
  overallcomparisons :: nat
  aggregateLesionPerf :: nat
  aggregatePerf :: nat
  sequenceAssessment :: "assessment list"

text \<open>
  \<^verbatim>\<open>turn_one_hot_to_integer\<close> on a slice of a torch tensor: \<^verbatim>\<open>np.nonzero\<close> hands over to the
  tensor's own \<^verbatim>\<open>nonzero()\<close>, which has one row per nonzero entry, so that \<^verbatim>\<open>[0]\<close> is the
  first of them (and fails when there is none).
\<close>

definition tensor_one_hot_to_integer :: "real list \<Rightarrow> int list result" where
  "tensor_one_hot_to_integer row =
     (case turn_one_hot_to_integer row of [] \<Rightarrow> Raise IndexError | n # _ \<Rightarrow> Ok [n])"

text \<open>The block \<^verbatim>\<open>if lesionRecord[trial]==1:\<close>, which lesions the first row of an input.\<close>

definition apply_lesion :: "string \<Rightarrow> real list \<Rightarrow> nat \<Rightarrow> lesion_vars \<Rightarrow> lesion_vars result" where
  "apply_lesion whichLesion lesion_rec trial s =
     bind (getitem lesion_rec trial) (\<lambda>flag.
     if flag = 1 then
       bind (bound (tmpinputs s)) (\<lambda>ti.
       bind (getitem ti trial) (\<lambda>x.
       bind (getitem x 0) (\<lambda>row0.
       bind (tensor_one_hot_to_integer (take TOTALMAXNUM row0)) (\<lambda>number.
       let row0' = (if whichLesion = ''number'' then zero_slice 0 TOTALMAXNUM row0
                    else zero_slice TOTALMAXNUM (TOTALMAXNUM + NCONTEXTS) row0)
       in Ok (s\<lparr>lesion_number := Some number,
                 tmpinputs := Some (ti[trial := x[0 := row0']])\<rparr>)))))
     else Ok s)"

text \<open>
  One iteration of \<^verbatim>\<open>for trial in range(assess_idx+1)\<close>: the lesion, the noise, the step
  of the network, and the tallies on compare trials.
\<close>

definition lesion_step ::
  "model \<Rightarrow> string \<Rightarrow> real list \<Rightarrow> (nat \<Rightarrow> nat \<Rightarrow> nat \<Rightarrow> real) \<Rightarrow> batch \<Rightarrow> nat \<Rightarrow> nat
     \<Rightarrow> lesion_vars \<Rightarrow> lesion_vars result" where
  "lesion_step m whichLesion lesion_rec z d assess_idx trial s =
     bind (apply_lesion whichLesion lesion_rec trial s) (\<lambda>s1.
     bind (noise_like m (z trial) (l_hidden s1)) (\<lambda>noise.
     let h1 = tensor_add (l_hidden s1) noise;
         lat1 = (if l_aliased s1 then h1 else l_latentstate s1) in
     bind (bound (tmpinputs s1)) (\<lambda>ti.
     bind (getitem ti trial) (\<lambda>x.
     let (output, h) = forward m x h1;
         (h0activations, h1activations, out2) = get_activations m x h;
         s2 = s1\<lparr>l_hidden := h, l_latentstate := lat1, l_aliased := False\<rparr> in
     bind (getitem (d_trialtypeinput d) trial) (\<lambda>tt.
     bind (flag_is_one tt) (\<lambda>cmp.
     if cmp then
       bind (getitem (d_label d) trial) (\<lambda>l.
       bind (answer_correct output l) (\<lambda>n.
       let s3 = s2\<lparr>ncomparetrials := ncomparetrials s2 + 1,
                    overallperf := overallperf s2 + n,
                    overallcomparisons := overallcomparisons s2 + 1\<rparr>
       in if trial = assess_idx then
            Ok (s3\<lparr>lesionperf := Some n, post_lesion_activations := Some h1activations\<rparr>)
          else Ok s3))
     else Ok s2))))))"

text \<open>
  The pass that hands the hidden state over to the next sequence, at
  \<^verbatim>\<open>assess_idx==(sequenceLength-2)\<close>.
\<close>

definition handover_step ::
  "model \<Rightarrow> (nat \<Rightarrow> nat \<Rightarrow> nat \<Rightarrow> real) \<Rightarrow> nat \<Rightarrow> lesion_vars \<Rightarrow> lesion_vars result" where
  "handover_step m z i s =
     bind (noise_like m (z i) (l_hidden s)) (\<lambda>noise.
     let h1 = tensor_add (l_hidden s) noise;
         lat1 = (if l_aliased s then h1 else l_latentstate s) in
     bind (bound (tmpinputs s)) (\<lambda>ti.
     bind (getitem ti i) (\<lambda>x.
     Ok (s\<lparr>l_hidden := snd (forward m x h1), l_latentstate := lat1, l_aliased := False\<rparr>))))"

text \<open>
  The pseudo-random values of one sequence of the lesion test: \<open>lesion_uniform k i\<close> for
  \<^verbatim>\<open>random.random()\<close> at \<open>item_idx = i\<close> under \<open>assess_idx = k\<close>, \<open>lesion_normal k\<close> and
  \<open>handover_normal\<close> for the standard normal draws of the two passes.
\<close>

record lesion_sources =
  lesion_uniform :: "nat \<Rightarrow> nat \<Rightarrow> real"
  lesion_normal :: "nat \<Rightarrow> nat \<Rightarrow> nat \<Rightarrow> nat \<Rightarrow> real"
  handover_normal :: "nat \<Rightarrow> nat \<Rightarrow> nat \<Rightarrow> real"

text \<open>
  The block \<^verbatim>\<open>if (trialtype[:,assess_idx]==1) and (assess_idx>0):\<close> of one iteration of
  \<^verbatim>\<open>for assess_idx in range(sequenceLength)\<close>: the lesion record is filled, \<^verbatim>\<open>tmpinputs\<close>
  becomes a copy of the inputs of the sequence, the pass is made and the assessment is
  recorded.
\<close>

definition assess_pass ::
  "model \<Rightarrow> string \<Rightarrow> real \<Rightarrow> lesion_sources \<Rightarrow> batch \<Rightarrow> tensor list \<Rightarrow> nat \<Rightarrow> int
     \<Rightarrow> lesion_vars \<Rightarrow> lesion_vars result" where
  "assess_pass m whichLesion lesionFrequency src d inputs assess_idx context s0 =
     bind (mark_lesions lesionFrequency (lesion_uniform src assess_idx) d assess_idx)
       (\<lambda>lesion_rec.
     bind (getitem (d_input d) assess_idx) (\<lambda>x.
     bind (getitem x 0) (\<lambda>row0.
     bind (getitem (turn_one_hot_to_integer row0) 0) (\<lambda>number.
     bind (for_each [0..<assess_idx + 1]
             (lesion_step m whichLesion lesion_rec (lesion_normal src assess_idx) d
                assess_idx)
             (s0\<lparr>tmpinputs := Some inputs, overallperf := 0, ncomparetrials := 0\<rparr>))
       (\<lambda>s1.
     bind (getitem (d_label d) assess_idx) (\<lambda>l.
     bind (get_local_model_response number context l) (\<lambda>localperf.
     bind (get_global_model_response number context l) (\<lambda>globalperf.
     bind (bound (lesion_number s1)) (\<lambda>ln.
     bind (bound (lesionperf s1)) (\<lambda>lp.
     bind (bound (post_lesion_activations s1)) (\<lambda>act.
     Ok (s1\<lparr>sequenceAssessment := sequenceAssessment s1 @
               [\<lparr>assess_number = number, a_lesion_number = ln, lesion_perf = lp,
                 overall_perf = overallperf s1, desired_lesionF = lesionFrequency,
                 underlying_context = context, a_assess_idx = assess_idx,
                 compare_idx = ncomparetrials s1, localmodel_perf = localperf,
                 globalmodel_perf = globalperf, a_post_lesion_activations = act\<rparr>],
            aggregateLesionPerf := aggregateLesionPerf s1 + lp,
            aggregatePerf := aggregatePerf s1 + overallperf s1,
            n_sequences := n_sequences s1 + 1\<rparr>))))))))))))"

text \<open>
  The block \<^verbatim>\<open>if assess_idx==(sequenceLength-2):\<close> that ends the iteration: the network
  is stepped through \<^verbatim>\<open>tmpinputs\<close> once more and the hidden state is kept for the next
  sequence.
\<close>

definition handover_pass ::
  "model \<Rightarrow> lesion_sources \<Rightarrow> batch \<Rightarrow> nat \<Rightarrow> lesion_vars \<Rightarrow> lesion_vars result" where
  "handover_pass m src d assess_idx s2 =
     (if int assess_idx = int (length (d_input d)) - 2 then
        bind (for_each [0..<assess_idx + 1] (handover_step m (handover_normal src)) s2) (\<lambda>s3.
        Ok (s3\<lparr>l_latentstate := l_hidden s3, l_aliased := True\<rparr>))
      else Ok s2)"

text \<open>One iteration of \<^verbatim>\<open>for assess_idx in range(sequenceLength)\<close>.\<close>

definition assess_body ::
  "args \<Rightarrow> model \<Rightarrow> string \<Rightarrow> real \<Rightarrow> lesion_sources \<Rightarrow> batch \<Rightarrow> tensor list \<Rightarrow> nat
     \<Rightarrow> lesion_vars \<Rightarrow> lesion_vars result" where
  "assess_body a m whichLesion lesionFrequency src d inputs assess_idx s =
     bind (getitem (d_context d) assess_idx) (\<lambda>ctx.
     bind (getitem ctx 0) (\<lambda>ctx0.
     bind (getitem (turn_one_hot_to_integer ctx0) 0) (\<lambda>context.
     let s0 = s\<lparr>l_hidden := start_hidden a m (l_latentstate s),
                  l_aliased := retain_hidden_state a\<rparr> in
     bind (getitem (d_trialtypeinput d) assess_idx) (\<lambda>tt.
     bind (flag_is_one tt) (\<lambda>cmp.
     bind (if cmp \<and> assess_idx > 0 then
             assess_pass m whichLesion lesionFrequency src d inputs assess_idx context s0
           else Ok s0)
       (handover_pass m src d assess_idx))))))"

text \<open>
  One sequence of the test loader, and \<^verbatim>\<open>recurrent_lesion_test\<close>: the assessments of
  every sequence and the two summary percentages.
\<close>

definition lesion_init :: "args \<Rightarrow> model \<Rightarrow> lesion_vars" where
  "lesion_init a m =
     \<lparr>l_hidden = torch_zeros (batch_size a) (recurrent_size m),
      l_latentstate = torch_zeros (batch_size a) (recurrent_size m),
      l_aliased = False, tmpinputs = None, lesion_number = None, lesionperf = None,
      post_lesion_activations = None, overallperf = 0, ncomparetrials = 0, n_sequences = 0,
      overallcomparisons = 0, aggregateLesionPerf = 0, aggregatePerf = 0,
      sequenceAssessment = []\<rparr>"

definition lesion_batch ::
  "args \<Rightarrow> model \<Rightarrow> string \<Rightarrow> real \<Rightarrow> (nat \<Rightarrow> lesion_sources) \<Rightarrow> nat \<times> batch
     \<Rightarrow> lesion_vars \<times> assessment list list \<Rightarrow> (lesion_vars \<times> assessment list list) result" where
  "lesion_batch a m whichLesion lesionFrequency src bd st =
     (let batch_idx = fst bd; d = snd bd in
      bind (lesion_inputs d) (\<lambda>inputs.
      bind (for_each [0..<length (d_input d)]
              (assess_body a m whichLesion lesionFrequency (src batch_idx) d inputs)
              ((fst st)\<lparr>sequenceAssessment := []\<rparr>)) (\<lambda>s1.
      Ok (s1, snd st @ [sequenceAssessment s1]))))"

definition recurrent_lesion_test ::
  "args \<Rightarrow> model \<Rightarrow> string \<Rightarrow> real \<Rightarrow> (nat \<Rightarrow> lesion_sources) \<Rightarrow> batch list
     \<Rightarrow> (assessment list list \<times> real \<times> real) result" where
  "recurrent_lesion_test a m whichLesion lesionFrequency src test_loader =
     bind (for_each (enumerate test_loader) (lesion_batch a m whichLesion lesionFrequency src)
             (lesion_init a m, [])) (\<lambda>st.
     let s = fst st in
     if n_sequences s = 0 then Raise ZeroDivisionError
     else if overallcomparisons s = 0 then Raise ZeroDivisionError
     else Ok (snd st, 100 * (real (aggregateLesionPerf s) / real (n_sequences s)),
              100 * (real (aggregatePerf s) / real (overallcomparisons s))))"

subsection \<open>get\_activations\<close>

text \<open>
  The inputs of the pass over the whole set (the branch taken when the hidden state is
  retained): \<^verbatim>\<open>for i in range(sequenceLength)\<close>.
\<close>

definition activation_input_body :: "batch \<Rightarrow> nat \<Rightarrow> tensor list \<Rightarrow> tensor list result" where
  "activation_input_body d i inputs =
     bind (getitem (d_contextinput d) i) (\<lambda>contextin.
     bind (getitem (d_trialtypeinput d) i) (\<lambda>tt.
     bind (first_flag tt) (\<lambda>flag.
     let contextinput = (if flag = 0 then full_like_0 contextin else contextin) in
     bind (getitem (d_input d) i) (\<lambda>x.
     Ok (inputs @ [torch_cat x contextinput tt])))))"

definition activation_inputs :: "batch \<Rightarrow> tensor list result" where
  "activation_inputs d = for_each [0..<length (d_input d)] (activation_input_body d) []"

section \<open>Notions used in the statements\<close>

text \<open>
  \<open>onehot8 v\<close> is the vector \<open>turn_one_hot\<close> returns for a value \<open>v\<close> between 1 and
  \<open>TOTALMAXNUM\<close>; \<open>in_range\<close> holds of a distribution whose values all lie there.
\<close>

definition onehot8 :: "int \<Rightarrow> real list" where
  "onehot8 v = (replicate TOTALMAXNUM 0)[nat (v - 1) := 1]"

definition in_range :: "int list \<Rightarrow> bool" where
  "in_range rd = list_all (\<lambda>v. 1 \<le> v \<and> v \<le> int TOTALMAXNUM) rd"

section \<open>Two runs of the sampler\<close>

text \<open>
  Settings of a short-sequence run with true context labels and sequences of 120 trials,
  and the variables at the start of a block of the low range. \<open>filler_run\<close> samples one
  sequence with fillers; \<open>compare_run\<close> and \<open>compare_run_next\<close> sample the first two
  sequences of a block without fillers. The draws are chosen so that no loop repeats.
\<close>

definition run_args :: "bool \<Rightarrow> args" where
  "run_args fillers =
     \<lparr>which_context = 0, train_long = False, label_context = ''true'', all_fullrange = False,
      include_fillers = fillers, BPTT_len = 120, batch_size = 1, retain_hidden_state = True,
      retrain_decoder = False, train_lesion_freq = 0\<rparr>"

definition run_vars :: "nat list list \<Rightarrow> nat list \<Rightarrow> gen_vars" where
  "run_vars ps ds =
     \<lparr>rng = \<lparr>perms = ps, draws = ds\<rparr>, firstTrialInContext = True, judgementValue = None,
      refValue = None, randind = None, context_digit = Some 1, minNumerosity = Some 1,
      maxNumerosity = Some 4, input2 = None, contextinput = None, previousFillerNum = None,
      previousTrialtype = None, type_sequence = [], trialtypeinput = [], input_sequence = [],
      contextsequence = [], contextinputsequence = []\<rparr>"

definition filler_draws :: "nat list" where
  "filler_draws =
      [0, 1, 1, 1, 0, 2, 2, 2, 4, 4, 0, 5, 5, 2, 4, 4, 0, 5, 5, 2, 4, 4, 0, 5, 5, 2, 4, 4, 0,
       5, 5, 2, 4, 4, 4, 0, 5, 5, 5, 2, 4, 4, 4, 0, 5, 5, 5, 2, 4, 4, 4, 0, 5, 5, 5, 2, 4, 4,
       4, 0, 5, 5, 5, 2, 4, 4, 4, 0, 5, 5, 5, 2, 4, 4, 4, 4, 0, 5, 5, 5, 5, 2, 4, 4, 4, 4, 0,
       5, 5, 5, 5, 2, 4, 4, 4, 4, 0, 5, 5, 5, 5, 2, 4, 4, 4, 4, 0, 5, 5, 5, 5, 2, 4, 4, 4, 4,
       0, 5, 5, 5, 5]"

definition compare_draws :: "nat list" where
  "compare_draws =
      [0, 1, 0, 1, 0, 1, 0, 1, 0, 1, 0, 1, 0, 1, 0, 1, 0, 1, 0, 1, 0, 1, 0, 1, 0, 1, 0, 1, 0,
       1, 0, 1, 0, 1, 0, 1, 0, 1, 0, 1, 0, 1, 0, 1, 0, 1, 0, 1, 0, 1, 0, 1, 0, 1, 0, 1, 0, 1,
       0, 1, 0, 1, 0, 1, 0, 1, 0, 1, 0, 1, 0, 1, 0, 1, 0, 1, 0, 1, 0, 1, 0, 1, 0, 1, 0, 1, 0,
       1, 0, 1, 0, 1, 0, 1, 0, 1, 0, 1, 0, 1, 0, 1, 0, 1, 0, 1, 0, 1, 0, 1, 0, 1, 0, 1, 0, 1,
       0, 1, 0, 1, 0, 1, 0, 1, 0, 1, 0, 1, 0, 1, 0, 1, 0, 1, 0, 1, 0, 1, 0, 1, 0, 1, 0, 1, 0,
       1, 0, 1, 0, 1, 0, 1, 0, 1, 0, 1, 0, 1, 0, 1, 0, 1, 0, 1, 0, 1, 0, 1, 0, 1, 0, 1, 0, 1,
       0, 1, 0, 1, 0, 1, 0, 1, 0, 1, 0, 1, 0, 1, 0, 1, 0, 1, 0, 1, 0, 1, 0, 1, 0, 1, 0, 1, 0,
       1, 0, 1, 0, 1, 0, 1, 0, 1, 0, 1, 0, 1, 0, 1, 0, 1, 0, 1, 0, 1, 0, 1, 0, 1, 0, 1, 0, 1,
       0, 1, 0, 1, 0, 1, 0, 1, 0]"

definition filler_run :: "(gen_vars \<times> row) result" where
  "filler_run =
     sample_body (run_args True) ''train'' [1, 2, 3, 4] (replicate 120 (Val 7)) 0
       (run_vars [[0..<30]] filler_draws)"

definition compare_run :: "(gen_vars \<times> row) result" where
  "compare_run =
     sample_body (run_args False) ''train'' [1, 2, 3, 4] (replicate 120 (Val 7)) 0
       (run_vars [[0..<30], [0..<30]] compare_draws)"

definition compare_run_next :: "gen_vars \<Rightarrow> (gen_vars \<times> row) result" where
  "compare_run_next s1 =
     sample_body (run_args False) ''train'' [1, 2, 3, 4] (replicate 120 (Val 7)) 1 s1"

section \<open>Reasoning about outcomes and loops\<close>

lemma bind_Ok_iff: "bind r f = Ok y \<longleftrightarrow> (\<exists>x. r = Ok x \<and> f x = Ok y)"
  by (cases r) auto

lemma getitem_Ok_iff: "getitem xs i = Ok x \<longleftrightarrow> i < length xs \<and> x = xs ! i"
  by (auto simp: getitem_def)

lemma store_Ok_iff: "store xs i v = Ok ys \<longleftrightarrow> i < length xs \<and> ys = xs[i := v]"
  by (auto simp: store_def)

lemma as_scalar_Ok_iff: "as_scalar a = Ok x \<longleftrightarrow> a = [x]"
  by (auto simp: as_scalar_def split: list.splits)

lemma bound_Ok_iff: "bound v = Ok x \<longleftrightarrow> v = Some x"
  by (auto simp: bound_def split: option.splits)

lemma for_each_append:
  "for_each (xs @ ys) body s = bind (for_each xs body s) (for_each ys body)"
proof (induction xs arbitrary: s)
  case Nil
  show ?case by simp
next
  case (Cons x xs)
  show ?case by (cases "body x s") (simp_all add: Cons.IH)
qed

lemma for_each_upt_Suc:
  "for_each [0..<Suc n] body s = bind (for_each [0..<n] body s) (body n)"
proof -
  have "for_each [n] body = body n"
  proof
    fix t show "for_each [n] body t = body n t" by (cases "body n t") simp_all
  qed
  then show ?thesis by (simp add: for_each_append)
qed

lemma for_each_upt_inv:
  assumes "for_each [0..<n] body s = Ok s'"
    and "I 0 s"
    and "\<And>k t t'. k < n \<Longrightarrow> I k t \<Longrightarrow> body k t = Ok t' \<Longrightarrow> I (Suc k) t'"
  shows "I n s'"
  using assms
proof (induction n arbitrary: s')
  case 0
  then show ?case by simp
next
  case (Suc n)
  from Suc.prems(1) obtain t where t: "for_each [0..<n] body s = Ok t" and b: "body n t = Ok s'"
    unfolding for_each_upt_Suc by (auto simp: bind_Ok_iff)
  have "I n t" using t Suc.prems(2) Suc.prems(3) by (intro Suc.IH) auto
  with b Suc.prems(3) show ?case by blast
qed

lemma ok_pair_cases:
  assumes "case x of Ok (s, r) \<Rightarrow> P s r | _ \<Rightarrow> False"
  obtains s r where "x = Ok (s, r)" and "P s r"
  using assms by (cases x) (auto split: prod.splits)

section \<open>Properties of the one-hot coding\<close>

lemma filter_eq_upt: "k < m \<Longrightarrow> filter (\<lambda>i. i = k) [0..<m] = [k]"
proof (induction m)
  case 0
  then show ?case by simp
next
  case (Suc m)
  show ?case
  proof (cases "k = m")
    case True
    have "filter (\<lambda>i. i = m) [0..<m] = []" by (simp add: filter_empty_conv)
    with True show ?thesis by simp
  next
    case False
    with Suc have "filter (\<lambda>i. i = k) [0..<m] = [k]" by simp
    with False show ?thesis by simp
  qed
qed

lemma np_nonzero_unit: "k < m \<Longrightarrow> np_nonzero ((replicate m 0)[k := 1]) = [k]"
proof -
  assume k: "k < m"
  have "filter (\<lambda>i. (replicate m (0::real))[k := 1] ! i \<noteq> 0) [0..<m]
        = filter (\<lambda>i. i = k) [0..<m]"
    using k by (intro filter_cong refl) (auto simp: nth_list_update)
  with k show ?thesis by (simp add: np_nonzero_def filter_eq_upt)
qed

lemma turn_one_hot_in_range:
  "1 \<le> n \<Longrightarrow> n \<le> int m \<Longrightarrow> turn_one_hot n m = Ok ((replicate m 0)[nat (n - 1) := 1])"
  by (simp add: turn_one_hot_def NCONTEXTS_def Let_def)

lemma decode_unit: "k < m \<Longrightarrow> turn_one_hot_to_integer ((replicate m 0)[k := 1]) = [int k + 1]"
  by (simp add: turn_one_hot_to_integer_def np_nonzero_unit)

text \<open>
  C10. For every integer \<open>n\<close> with \<open>1 \<le> n \<le> maxSize\<close>, \<open>turn_one_hot\<close> returns a
  vector of \<open>maxSize\<close> entries whose single one is at index \<open>n - 1\<close>, all others zero, and
  \<open>turn_one_hot_to_integer\<close> decodes that vector to the one-element array holding \<open>n\<close>:
  the index of the nonzero entry plus one.
\<close>

theorem one_hot_round_trip:
  assumes "1 \<le> n" and "n \<le> int maxSize"
  shows "\<exists>v. turn_one_hot n maxSize = Ok v \<and> length v = maxSize
           \<and> v ! nat (n - 1) = 1
           \<and> (\<forall>i < maxSize. i \<noteq> nat (n - 1) \<longrightarrow> v ! i = 0)
           \<and> np_nonzero v = [nat (n - 1)]
           \<and> turn_one_hot_to_integer v = [n]"
proof -
  let ?k = "nat (n - 1)"
  let ?v = "(replicate maxSize (0::real))[?k := 1]"
  from assms have k: "?k < maxSize" by linarith
  have "turn_one_hot n maxSize = Ok ?v" using assms by (rule turn_one_hot_in_range)
  moreover have "length ?v = maxSize" by simp
  moreover have "?v ! ?k = 1" using k by simp
  moreover have "\<forall>i < maxSize. i \<noteq> ?k \<longrightarrow> ?v ! i = 0" by simp
  moreover have "np_nonzero ?v = [?k]" using k by (rule np_nonzero_unit)
  moreover have "turn_one_hot_to_integer ?v = [n]"
    using decode_unit [OF k] assms by simp
  ultimately show ?thesis by blast
qed

theorem one_hot_round_trip_witness:
  "(1::int) \<le> 3 \<and> 3 \<le> int 8
   \<and> turn_one_hot 3 8 = Ok [0, 0, 1, 0, 0, 0, 0, 0]
   \<and> turn_one_hot_to_integer [0, 0, 1, 0, 0, 0, 0, 0] = [3]"
proof -
  have a: "(1::int) \<le> 3" and b: "(3::int) \<le> int 8" by simp_all
  from one_hot_round_trip [OF a b] obtain v where
    v: "turn_one_hot 3 8 = Ok v" and d: "turn_one_hot_to_integer v = [3]" by blast
  have e: "turn_one_hot 3 8 = Ok [0, 0, 1, 0, 0, 0, 0, 0]"
    by (simp add: turn_one_hot_def NCONTEXTS_def Let_def eval_nat_numeral)
  with v d show ?thesis by simp
qed

lemma decode_onehot8:
  "1 \<le> v \<Longrightarrow> v \<le> int TOTALMAXNUM \<Longrightarrow> turn_one_hot_to_integer (onehot8 v) = [v]"
  using decode_unit [of "nat (v - 1)" TOTALMAXNUM] by (simp add: onehot8_def)

section \<open>Positions of a sequence\<close>

text \<open>
  \<open>last_pos P i\<close> is the last position before \<open>i\<close> that satisfies \<open>P\<close>, if there is one.
  For a row of trial-type flags, \<open>last_compare\<close> is the latest earlier compare trial and
  \<open>last_filler\<close> the latest earlier filler trial.
\<close>

fun last_pos :: "(nat \<Rightarrow> bool) \<Rightarrow> nat \<Rightarrow> nat option" where
  "last_pos P 0 = None"
| "last_pos P (Suc k) = (if P k then Some k else last_pos P k)"

definition last_compare :: "nat list \<Rightarrow> nat \<Rightarrow> nat option" where
  "last_compare tts i = last_pos (\<lambda>k. tts ! k = 1) i"

definition last_filler :: "nat list \<Rightarrow> nat \<Rightarrow> nat option" where
  "last_filler tts i = last_pos (\<lambda>k. tts ! k \<noteq> 1) i"

lemma last_pos_Some:
  "last_pos P i = Some j \<Longrightarrow> j < i \<and> P j \<and> (\<forall>k. j < k \<and> k < i \<longrightarrow> \<not> P k)"
proof (induction i)
  case 0
  then show ?case by simp
next
  case (Suc i)
  show ?case
  proof (cases "P i")
    case True
    with Suc.prems have "j = i" by simp
    with True show ?thesis by auto
  next
    case False
    with Suc.prems have "last_pos P i = Some j" by simp
    from Suc.IH [OF this] False show ?thesis
      by (auto simp: less_Suc_eq)
  qed
qed

lemma last_pos_None: "last_pos P i = None \<Longrightarrow> k < i \<Longrightarrow> \<not> P k"
  by (induction i) (auto simp: less_Suc_eq split: if_splits)

lemma last_pos_cong:
  "(\<And>k. k < i \<Longrightarrow> P k = Q k) \<Longrightarrow> last_pos P i = last_pos Q i"
  by (induction i) auto

lemma last_pos_less: "last_pos P i = Some j \<Longrightarrow> j < i"
  using last_pos_Some by blast

section \<open>What a row of the dataset holds\<close>

lemma sample_body_row:
  assumes "sample_body a phase rd garbage idx s = Ok (s', r)"
  shows "\<exists>s1 lv. sample_sequence a phase rd s = Ok s1
           \<and> ds_input r = input_sequence s1 \<and> ds_trialtypeinputs r = trialtypeinput s1
           \<and> label_loop a (trialtypeinput s1) (input_sequence s1) garbage = Ok lv
           \<and> ds_label r = target lv \<and> length (type_sequence s1) = BPTT_len a"
proof -
  from assms obtain s1 s2 lv where ss: "sample_sequence a phase rd s = Ok s1"
    and s2: "(if firstTrialInContext s1 then
             (if input_sequence s1 = [] then Raise IndexError
              else bind (as_scalar (turn_one_hot_to_integer (last (input_sequence s1)))) (\<lambda>j.
                   Ok (s1\<lparr>judgementValue := Some j, firstTrialInContext := False\<rparr>)))
           else Ok s1) = Ok s2"
    and ll: "label_loop a (trialtypeinput s2) (input_sequence s2) garbage = Ok lv"
    and len: "length (type_sequence s2) = BPTT_len a"
    and r: "ds_input r = input_sequence s2" "ds_trialtypeinputs r = trialtypeinput s2"
       "ds_label r = target lv"
    by (auto simp: sample_body_def bind_Ok_iff split: if_splits)
  from s2 have "input_sequence s2 = input_sequence s1 \<and> trialtypeinput s2 = trialtypeinput s1
     \<and> type_sequence s2 = type_sequence s1"
    by (auto simp: bind_Ok_iff split: if_splits)
  with ss ll len r show ?thesis by auto
qed

section \<open>The two runs, evaluated\<close>

lemma filler_run_facts:
  "case filler_run of
     Ok (s, r) \<Rightarrow>
       ds_trialtypeinputs r ! 0 = 1 \<and> ds_trialtypeinputs r ! 1 = 0
       \<and> ds_trialtypeinputs r ! 2 = 0 \<and> ds_trialtypeinputs r ! 3 = 1
       \<and> ds_trialtypeinputs r ! 4 = 0 \<and> ds_trialtypeinputs r ! 5 = 0
       \<and> ds_trialtypeinputs r ! 6 = 1
       \<and> ds_input r ! 0 = onehot8 2 \<and> ds_input r ! 1 = onehot8 2
       \<and> ds_input r ! 2 = onehot8 2 \<and> ds_input r ! 3 = onehot8 1
       \<and> ds_input r ! 4 = onehot8 3 \<and> ds_input r ! 5 = onehot8 3
       \<and> ds_input r ! 6 = onehot8 3
   | _ \<Rightarrow> False"
  unfolding filler_run_def by code_simp

lemma compare_run_facts:
  "case compare_run of
     Ok (s1, r1) \<Rightarrow>
       (case compare_run_next s1 of
          Ok (s2, r2) \<Rightarrow>
            \<not> firstTrialInContext s1 \<and> judgementValue s1 = Some 1
            \<and> ds_trialtypeinputs r1 ! 119 = 1 \<and> ds_input r1 ! 119 = onehot8 1
            \<and> ds_trialtypeinputs r2 ! 0 = 1 \<and> ds_trialtypeinputs r2 ! 1 = 1
            \<and> ds_input r2 ! 0 = onehot8 2 \<and> ds_input r2 ! 1 = onehot8 1
            \<and> ds_label r2 ! 0 = NaN \<and> ds_label r2 ! 1 = Val 0
        | _ \<Rightarrow> False)
   | _ \<Rightarrow> False"
  unfolding compare_run_def compare_run_next_def by code_simp

section \<open>The comparison labels of a sequence\<close>

text \<open>
  The label the labelling loop stores for a judged value \<open>J\<close> against a reference \<open>R\<close>.
\<close>

definition expected_label :: "args \<Rightarrow> int \<Rightarrow> int \<Rightarrow> label" where
  "expected_label a J R =
     (if \<not> train_long a \<and> ((J \<le> LOWR_ULIM \<and> HIGHR_LLIM \<le> R) \<or> (HIGHR_LLIM \<le> J \<and> R \<le> LOWR_ULIM))
      then NaN
      else if R < J then Val 1 else Val 0)"

lemma compare_target_None:
  assumes "compare_target a x i s = Ok s'" "rValue s = None"
  shows "i < length (target s) \<and> rValue s' = rValue s \<and> target s' = (target s)[i := NaN]"
  using assms
  apply (simp add: compare_target_def Let_def bind_Ok_iff store_Ok_iff)
  apply auto
  done


lemma compare_target_Some:
  assumes "compare_target a x i s = Ok s'" "rValue s = Some rv"
  shows "i < length (target s) \<and> rValue s' = rValue s \<and>
     (\<exists>J R. turn_one_hot_to_integer x = [J] \<and> rv = [R]
                 \<and> target s' = (target s)[i := expected_label a J R])"
proof -
  from assms obtain J R t1 t2 where J: "turn_one_hot_to_integer x = [J]" and R: "rv = [R]"
    and t1: "store (target s) i (if J > R then Val 1 else Val 0) = Ok t1"
    and t2: "(if \<not> train_long a \<and>
                   ((J \<le> LOWR_ULIM \<and> R \<ge> HIGHR_LLIM) \<or> (J \<ge> HIGHR_LLIM \<and> R \<le> LOWR_ULIM))
                then store t1 i NaN else Ok t1) = Ok t2"
    and s': "s' = s\<lparr>judgeValue := Some (turn_one_hot_to_integer x), target := t2\<rparr>"
    by (auto simp: compare_target_def Let_def bind_Ok_iff as_scalar_Ok_iff)
  from t1 have i: "i < length (target s)" and t1': "t1 = (target s)[i := (if J > R then Val 1 else Val 0)]"
    by (simp_all add: store_Ok_iff)
  have "t2 = (target s)[i := expected_label a J R]"
  proof (cases "\<not> train_long a \<and>
                   ((J \<le> LOWR_ULIM \<and> R \<ge> HIGHR_LLIM) \<or> (J \<ge> HIGHR_LLIM \<and> R \<le> LOWR_ULIM))")
    case True
    with t2 have "t2 = t1[i := NaN]" by (simp add: store_Ok_iff)
    moreover from True have "expected_label a J R = NaN"
      by (auto simp: expected_label_def)
    ultimately show ?thesis using t1' by simp
  next
    case False
    with t2 have "t2 = t1" by simp
    moreover from False have "expected_label a J R = (if J > R then Val 1 else Val 0)"
      by (auto simp: expected_label_def)
    ultimately show ?thesis using t1' by simp
  qed
  with i J R s' show ?thesis by simp
qed


lemma label_body_step:
  assumes "label_body a tts xs i s = Ok s'"
  shows "i < length tts \<and> i < length xs
    \<and> rValue s' = (if tts ! i = 1 then Some (turn_one_hot_to_integer (xs ! i)) else rValue s)
    \<and> (tts ! i \<noteq> 1 \<longrightarrow> target s' = target s)
    \<and> (tts ! i = 1 \<longrightarrow> i < length (target s) \<and>
          (case rValue s of
             None \<Rightarrow> target s' = (target s)[i := NaN]
           | Some rv \<Rightarrow> \<exists>J R. turn_one_hot_to_integer (xs ! i) = [J] \<and> rv = [R]
                 \<and> target s' = (target s)[i := expected_label a J R]))"
proof -
  from assms obtain s2 where i1: "i < length tts" and i2: "i < length xs"
    and s2: "(if tts ! i = 1 then compare_target a (xs ! i) i s else Ok s) = Ok s2"
    and r: "rValue s' = (if tts ! i = 1 then Some (turn_one_hot_to_integer (xs ! i)) else rValue s2)"
    and t: "target s' = target s2"
    by (auto simp: label_body_def bind_Ok_iff getitem_Ok_iff)
  show ?thesis
  proof (cases "tts ! i = 1")
    case True
    with s2 have c: "compare_target a (xs ! i) i s = Ok s2" by simp
    show ?thesis
    proof (cases "rValue s")
      case None
      from compare_target_None [OF c None] True i1 i2 r t None show ?thesis by simp
    next
      case (Some rv)
      from compare_target_Some [OF c Some] True i1 i2 r t Some show ?thesis by simp
    qed
  next
    case False
    with s2 i1 i2 r t show ?thesis by simp
  qed
qed


definition lab_ok :: "args \<Rightarrow> nat list \<Rightarrow> real list list \<Rightarrow> nat \<Rightarrow> label \<Rightarrow> bool" where
  "lab_ok a tts xs i t =
     (case last_compare tts i of
        None \<Rightarrow> t = NaN
      | Some j \<Rightarrow> \<exists>J R. turn_one_hot_to_integer (xs ! i) = [J]
                 \<and> turn_one_hot_to_integer (xs ! j) = [R] \<and> t = expected_label a J R)"

definition label_inv :: "args \<Rightarrow> nat list \<Rightarrow> real list list \<Rightarrow> label list \<Rightarrow> nat \<Rightarrow> label_vars \<Rightarrow> bool" where
  "label_inv a tts xs garbage k s \<longleftrightarrow>
     rValue s = (case last_compare tts k of None \<Rightarrow> None
                 | Some j \<Rightarrow> Some (turn_one_hot_to_integer (xs ! j)))
     \<and> length (target s) = length garbage
     \<and> (\<forall>i<k. if tts ! i = 1 then lab_ok a tts xs i (target s ! i) else target s ! i = garbage ! i)
     \<and> (\<forall>i\<ge>k. target s ! i = garbage ! i)"

lemma label_inv_step:
  assumes inv: "label_inv a tts xs garbage k s" and step: "label_body a tts xs k s = Ok s'"
  shows "label_inv a tts xs garbage (Suc k) s'"
proof -
  note f = label_body_step [OF step]
  show ?thesis
  proof (cases "tts ! k = 1")
    case False
    with f have r: "rValue s' = rValue s" and t: "target s' = target s" by simp_all
    from False have lc: "last_compare tts (Suc k) = last_compare tts k"
      by (simp add: last_compare_def)
    from inv False show ?thesis
      unfolding label_inv_def r t lc by (auto simp: less_Suc_eq)
  next
    case True
    with f have r: "rValue s' = Some (turn_one_hot_to_integer (xs ! k))"
      and k: "k < length (target s)" by simp_all
    from True have lc: "last_compare tts (Suc k) = Some k" by (simp add: last_compare_def)
    have new: "lab_ok a tts xs k (target s' ! k)"
    proof (cases "last_compare tts k")
      case None
      with inv have "rValue s = None" by (simp add: label_inv_def)
      with f True have "target s' = (target s)[k := NaN]" by simp
      with k None show ?thesis by (simp add: lab_ok_def)
    next
      case (Some j)
      with inv have "rValue s = Some (turn_one_hot_to_integer (xs ! j))"
        by (simp add: label_inv_def)
      with f True obtain J R where "turn_one_hot_to_integer (xs ! k) = [J]"
        "turn_one_hot_to_integer (xs ! j) = [R]" "target s' = (target s)[k := expected_label a J R]"
        by auto
      with k Some show ?thesis by (simp add: lab_ok_def)
    qed
    have old: "\<And>i. i \<noteq> k \<Longrightarrow> target s' ! i = target s ! i"
      using f True by (auto split: option.splits)
    have len: "length (target s') = length (target s)"
      using f True by (auto split: option.splits)
    from inv new old len True show ?thesis
      unfolding label_inv_def r lc by (auto simp: less_Suc_eq)
  qed
qed

lemma label_loop_inv:
  assumes "label_loop a tts xs garbage = Ok lv"
  shows "label_inv a tts xs garbage (BPTT_len a) lv"
proof -
  have "label_inv a tts xs garbage 0 (label_init (BPTT_len a) garbage)"
    by (simp add: label_inv_def label_init_def last_compare_def)
  with assms show ?thesis
    unfolding label_loop_def
    by (rule for_each_upt_inv [where I = "label_inv a tts xs garbage"])
       (rule label_inv_step)
qed



text \<open>
  C1, as the code has it. In every row of the dataset, a compare trial that follows another
  compare trial of the same sequence is labelled \<open>1\<close> when its value is greater than the
  value of the latest earlier compare trial of that sequence and \<open>0\<close> otherwise, except that
  the label is NaN when one value is in the low range (\<open>\<le> 4\<close>), the other in the high range
  (\<open>\<ge> 5\<close>) and \<open>train_long\<close> is false. The first compare trial of every sequence is
  labelled NaN.
\<close>

theorem compare_label_in_sequence:
  assumes run: "sample_body a phase rd garbage idx s = Ok (s', r)"
    and i: "i < BPTT_len a" and tt: "ds_trialtypeinputs r ! i = 1"
  shows "case last_compare (ds_trialtypeinputs r) i of
           None \<Rightarrow> ds_label r ! i = NaN
         | Some j \<Rightarrow>
             \<exists>J R. turn_one_hot_to_integer (ds_input r ! i) = [J]
               \<and> turn_one_hot_to_integer (ds_input r ! j) = [R]
               \<and> ds_label r ! i =
                   (if \<not> train_long a \<and>
                       ((J \<le> LOWR_ULIM \<and> HIGHR_LLIM \<le> R) \<or> (HIGHR_LLIM \<le> J \<and> R \<le> LOWR_ULIM))
                    then NaN
                    else if R < J then Val 1 else Val 0)"
proof -
  from sample_body_row [OF run] obtain s1 lv where
    row: "sample_sequence a phase rd s = Ok s1
           \<and> ds_input r = input_sequence s1 \<and> ds_trialtypeinputs r = trialtypeinput s1
           \<and> label_loop a (trialtypeinput s1) (input_sequence s1) garbage = Ok lv
           \<and> ds_label r = target lv \<and> length (type_sequence s1) = BPTT_len a"
    by - (erule exE, erule exE, rule that)
  then have ll: "label_loop a (trialtypeinput s1) (input_sequence s1) garbage = Ok lv"
    and r: "ds_input r = input_sequence s1" "ds_trialtypeinputs r = trialtypeinput s1"
      "ds_label r = target lv"
    by simp_all
  from label_loop_inv [OF ll] i tt
  have "lab_ok a (trialtypeinput s1) (input_sequence s1) i (target lv ! i)"
    by (simp add: label_inv_def r)
  then show ?thesis
    unfolding lab_ok_def expected_label_def r by simp
qed

text \<open>
  C1 as stated fails on the first compare trial of the second sequence of a block: the
  last compare trial of the first sequence (value \<open>1\<close>) is the reference the sampler
  carries over (\<open>judgementValue\<close>, with \<open>firstTrialInContext\<close> false), the judged value is
  \<open>2\<close>, both lie in the low range of a short-sequence run, and the stored label is NaN,
  not \<open>1\<close>.
\<close>

theorem first_compare_of_next_sequence_counterexample:
  "case compare_run of
     Ok (s1, r1) \<Rightarrow>
       (case compare_run_next s1 of
          Ok (s2, r2) \<Rightarrow>
            ds_trialtypeinputs r1 ! 119 = 1
            \<and> turn_one_hot_to_integer (ds_input r1 ! 119) = [1]
            \<and> \<not> firstTrialInContext s1 \<and> judgementValue s1 = Some 1
            \<and> ds_trialtypeinputs r2 ! 0 = 1
            \<and> turn_one_hot_to_integer (ds_input r2 ! 0) = [2]
            \<and> \<not> train_long (run_args False)
            \<and> ds_label r2 ! 0 = NaN \<and> ds_label r2 ! 0 \<noteq> Val 1
        | _ \<Rightarrow> False)
   | _ \<Rightarrow> False"
proof -
  from compare_run_facts obtain s1 r1 where run1: "compare_run = Ok (s1, r1)"
    and n: "case compare_run_next s1 of
          Ok (s2, r2) \<Rightarrow>
            \<not> firstTrialInContext s1 \<and> judgementValue s1 = Some 1
            \<and> ds_trialtypeinputs r1 ! 119 = 1 \<and> ds_input r1 ! 119 = onehot8 1
            \<and> ds_trialtypeinputs r2 ! 0 = 1 \<and> ds_trialtypeinputs r2 ! 1 = 1
            \<and> ds_input r2 ! 0 = onehot8 2 \<and> ds_input r2 ! 1 = onehot8 1
            \<and> ds_label r2 ! 0 = NaN \<and> ds_label r2 ! 1 = Val 0
        | _ \<Rightarrow> False"
    by (rule ok_pair_cases)
  from n obtain s2 r2 where run2: "compare_run_next s1 = Ok (s2, r2)"
    and u: "\<not> firstTrialInContext s1 \<and> judgementValue s1 = Some 1
            \<and> ds_trialtypeinputs r1 ! 119 = 1 \<and> ds_input r1 ! 119 = onehot8 1
            \<and> ds_trialtypeinputs r2 ! 0 = 1 \<and> ds_trialtypeinputs r2 ! 1 = 1
            \<and> ds_input r2 ! 0 = onehot8 2 \<and> ds_input r2 ! 1 = onehot8 1
            \<and> ds_label r2 ! 0 = NaN \<and> ds_label r2 ! 1 = Val 0"
    by (rule ok_pair_cases)
  have d: "turn_one_hot_to_integer (onehot8 1) = [1]" "turn_one_hot_to_integer (onehot8 2) = [2]"
    by (simp_all add: decode_onehot8 TOTALMAXNUM_def)
  from u d show ?thesis unfolding run1 by (simp add: run2 run_args_def)
qed

theorem compare_label_in_sequence_witness:
  "1 < BPTT_len (run_args False) \<and> 0 < BPTT_len (run_args False)
   \<and> (case compare_run of
         Ok (s1, r1) \<Rightarrow>
           (case compare_run_next s1 of
              Ok (s2, r2) \<Rightarrow>
                ds_trialtypeinputs r2 ! 1 = 1
                \<and> last_compare (ds_trialtypeinputs r2) 1 = Some 0
                \<and> turn_one_hot_to_integer (ds_input r2 ! 1) = [1]
                \<and> turn_one_hot_to_integer (ds_input r2 ! 0) = [2]
                \<and> ds_label r2 ! 1 = Val 0
                \<and> ds_trialtypeinputs r2 ! 0 = 1
                \<and> last_compare (ds_trialtypeinputs r2) 0 = None
                \<and> ds_label r2 ! 0 = NaN
            | _ \<Rightarrow> False)
       | _ \<Rightarrow> False)"
proof -
  have b: "1 < BPTT_len (run_args False)" "0 < BPTT_len (run_args False)"
    by (simp_all add: run_args_def)
  from compare_run_facts obtain s1 r1 where run1: "compare_run = Ok (s1, r1)"
    and n: "case compare_run_next s1 of
          Ok (s2, r2) \<Rightarrow>
            \<not> firstTrialInContext s1 \<and> judgementValue s1 = Some 1
            \<and> ds_trialtypeinputs r1 ! 119 = 1 \<and> ds_input r1 ! 119 = onehot8 1
            \<and> ds_trialtypeinputs r2 ! 0 = 1 \<and> ds_trialtypeinputs r2 ! 1 = 1
            \<and> ds_input r2 ! 0 = onehot8 2 \<and> ds_input r2 ! 1 = onehot8 1
            \<and> ds_label r2 ! 0 = NaN \<and> ds_label r2 ! 1 = Val 0
        | _ \<Rightarrow> False"
    by (rule ok_pair_cases)
  from n obtain s2 r2 where run2: "compare_run_next s1 = Ok (s2, r2)"
    and u: "\<not> firstTrialInContext s1 \<and> judgementValue s1 = Some 1
            \<and> ds_trialtypeinputs r1 ! 119 = 1 \<and> ds_input r1 ! 119 = onehot8 1
            \<and> ds_trialtypeinputs r2 ! 0 = 1 \<and> ds_trialtypeinputs r2 ! 1 = 1
            \<and> ds_input r2 ! 0 = onehot8 2 \<and> ds_input r2 ! 1 = onehot8 1
            \<and> ds_label r2 ! 0 = NaN \<and> ds_label r2 ! 1 = Val 0"
    by (rule ok_pair_cases)
  from u have t: "ds_trialtypeinputs r2 ! 0 = 1" "ds_trialtypeinputs r2 ! 1 = 1"
    and x: "ds_input r2 ! 0 = onehot8 2" "ds_input r2 ! 1 = onehot8 1" by simp_all
  have d: "turn_one_hot_to_integer (onehot8 1) = [1]" "turn_one_hot_to_integer (onehot8 2) = [2]"
    by (simp_all add: decode_onehot8 TOTALMAXNUM_def)
  from t have lc: "last_compare (ds_trialtypeinputs r2) 1 = Some 0"
    "last_compare (ds_trialtypeinputs r2) 0 = None"
    by (simp_all add: last_compare_def)
  note run2' = run2 [unfolded compare_run_next_def]
  from compare_label_in_sequence [OF run2' b(1) t(2)] lc x d
  have l1: "ds_label r2 ! 1 = Val 0"
    by (simp add: run_args_def LOWR_ULIM_def HIGHR_LLIM_def)
  from compare_label_in_sequence [OF run2' b(2) t(1)] lc
  have l0: "ds_label r2 ! 0 = NaN" by simp
  from b t x d lc l1 l0 show ?thesis unfolding run1 by (simp add: run2)
qed

section \<open>Repeated stimuli within a sequence\<close>

lemma while_same_judgement_result:
  "while_same_judgement rd s = Ok s' \<Longrightarrow>
     refValue s' \<noteq> judgementValue s'
     \<and> (\<exists>g ri jv. s' = s\<lparr>rng := g, randind := ri, judgementValue := jv\<rparr>
           \<and> (jv = judgementValue s \<or> (\<exists>k < length rd. jv = Some (rd ! k))))"
proof (induction rd s rule: while_same_judgement.induct)
  case (1 rd s)
  show ?case
  proof (cases "refValue s = judgementValue s")
    case False
    with "1.prems" have "s' = s" by (simp add: while_same_judgement.simps [of rd s])
    with False have "s' = s\<lparr>rng := rng s, randind := randind s, judgementValue := judgementValue s\<rparr>"
      and "refValue s' \<noteq> judgementValue s'" by simp_all
    then show ?thesis by blast
  next
    case True
    from "1.prems" True have e: "(case random_choice [0..<length rd] (rng s) of
           Ok (ri, g) \<Rightarrow>
             (case getitem rd ri of
                Ok v \<Rightarrow> while_same_judgement rd
                          (s\<lparr>rng := g, randind := Some ri, judgementValue := Some v\<rparr>)
              | Raise e \<Rightarrow> Raise e
              | OutOfDraws \<Rightarrow> OutOfDraws)
         | Raise e \<Rightarrow> Raise e
         | OutOfDraws \<Rightarrow> OutOfDraws) = Ok s'"
      by (subst (asm) while_same_judgement.simps) simp
    then obtain ri g where c: "random_choice [0..<length rd] (rng s) = Ok (ri, g)"
      and e2: "(case getitem rd ri of
                Ok v \<Rightarrow> while_same_judgement rd
                          (s\<lparr>rng := g, randind := Some ri, judgementValue := Some v\<rparr>)
              | Raise e \<Rightarrow> Raise e
              | OutOfDraws \<Rightarrow> OutOfDraws) = Ok s'"
      by (cases "random_choice [0..<length rd] (rng s)") auto
    then have ri: "ri < length rd" 
      and rec: "while_same_judgement rd (s\<lparr>rng := g, randind := Some ri, judgementValue := Some (rd ! ri)\<rparr>) = Ok s'"
      by (auto simp: getitem_def split: if_splits)
    from ri have gi: "getitem rd ri = Ok (rd ! ri)" by (simp add: getitem_def)
    from "1.IH" [OF True c refl gi rec]
    have ne: "refValue s' \<noteq> judgementValue s'"
      and ex: "\<exists>g' ri' jv. s' = s\<lparr>rng := g', randind := ri', judgementValue := jv\<rparr>
                 \<and> (jv = Some (rd ! ri) \<or> (\<exists>k < length rd. jv = Some (rd ! k)))"
      by simp_all
    from ex ri have "\<exists>g' ri' jv. s' = s\<lparr>rng := g', randind := ri', judgementValue := jv\<rparr>
                 \<and> (jv = judgementValue s \<or> (\<exists>k < length rd. jv = Some (rd ! k)))"
      by blast
    with ne show ?thesis by simp
  qed
qed


lemma while_same_filler_result:
  "while_same_filler s = Ok s' \<Longrightarrow>
     input2 s' \<noteq> previousFillerNum s'
     \<and> (\<exists>g x. s' = s\<lparr>rng := g, input2 := x\<rparr> \<and> (x = input2 s \<or> (\<exists>oh. x = Some oh)))"
proof (induction s rule: while_same_filler.induct)
  case (1 s)
  show ?case
  proof (cases "input2 s = previousFillerNum s")
    case False
    with "1.prems" have "s' = s" by (simp add: while_same_filler.simps [of s])
    with False have "s' = s\<lparr>rng := rng s, input2 := input2 s\<rparr>"
      and "input2 s' \<noteq> previousFillerNum s'" by simp_all
    then show ?thesis by blast
  next
    case True
    from "1.prems" True have e: "(case random_randint FULLR_LLIM FULLR_ULIM (rng s) of
           Ok (v, g) \<Rightarrow>
             (case turn_one_hot v TOTALMAXNUM of
                Ok oh \<Rightarrow> while_same_filler (s\<lparr>rng := g, input2 := Some oh\<rparr>)
              | Raise e \<Rightarrow> Raise e
              | OutOfDraws \<Rightarrow> OutOfDraws)
         | Raise e \<Rightarrow> Raise e
         | OutOfDraws \<Rightarrow> OutOfDraws) = Ok s'"
      by (subst (asm) while_same_filler.simps) simp
    then obtain v g where c: "random_randint FULLR_LLIM FULLR_ULIM (rng s) = Ok (v, g)"
      and e2: "(case turn_one_hot v TOTALMAXNUM of
                Ok oh \<Rightarrow> while_same_filler (s\<lparr>rng := g, input2 := Some oh\<rparr>)
              | Raise e \<Rightarrow> Raise e
              | OutOfDraws \<Rightarrow> OutOfDraws) = Ok s'"
      by (cases "random_randint FULLR_LLIM FULLR_ULIM (rng s)") auto
    then obtain oh where oh: "turn_one_hot v TOTALMAXNUM = Ok oh"
      and rec: "while_same_filler (s\<lparr>rng := g, input2 := Some oh\<rparr>) = Ok s'"
      by (cases "turn_one_hot v TOTALMAXNUM") auto
    from "1.IH" [OF True c refl oh rec]
    have ne: "input2 s' \<noteq> previousFillerNum s'"
      and ex: "\<exists>g' x. s' = s\<lparr>rng := g', input2 := x\<rparr> \<and> (x = Some oh \<or> (\<exists>oh. x = Some oh))"
      by simp_all
    from ex have "\<exists>g' x. s' = s\<lparr>rng := g', input2 := x\<rparr> \<and> (x = input2 s \<or> (\<exists>oh. x = Some oh))"
      by blast
    with ne show ?thesis by simp
  qed
qed

lemma in_range_nth: "in_range rd \<Longrightarrow> k < length rd \<Longrightarrow> 1 \<le> rd ! k \<and> rd ! k \<le> int TOTALMAXNUM"
  by (simp add: in_range_def list_all_length)

lemma random_choice_index:
  "random_choice [0..<n] g = Ok (ri, g') \<Longrightarrow> ri < n"
  by (auto simp: random_choice_def split: if_splits list.splits)

lemma compare_reference:
  assumes "(if firstTrialInContext s \<and> item = 0 then
              bind (random_choice [0..<length rd] (rng s)) (\<lambda>(ri, g).
              bind (getitem rd ri) (\<lambda>v.
              Ok (s\<lparr>rng := g, randind := Some ri, refValue := Some v\<rparr>)))
            else bind (bound (judgementValue s)) (\<lambda>j. Ok (s\<lparr>refValue := Some j\<rparr>))) = Ok s1"
  shows "\<exists>g ri r. s1 = s\<lparr>rng := g, randind := ri, refValue := Some r\<rparr>
           \<and> (\<not> (firstTrialInContext s \<and> item = 0) \<longrightarrow> judgementValue s = Some r)"
proof (cases "firstTrialInContext s \<and> item = 0")
  case True
  with assms obtain ri g v where "s1 = s\<lparr>rng := g, randind := Some ri, refValue := Some v\<rparr>"
    by (auto simp: bind_Ok_iff)
  with True show ?thesis by blast
next
  case False
  with assms obtain j where "judgementValue s = Some j" "s1 = s\<lparr>refValue := Some j\<rparr>"
    by (auto simp: bind_Ok_iff bound_Ok_iff)
  then have "s1 = s\<lparr>rng := rng s, randind := randind s, refValue := Some j\<rparr>" by simp
  with False \<open>judgementValue s = Some j\<close> show ?thesis by blast
qed


definition same_lists :: "gen_vars \<Rightarrow> gen_vars \<Rightarrow> bool" where
  "same_lists s s' \<longleftrightarrow>
     type_sequence s' = type_sequence s \<and> trialtypeinput s' = trialtypeinput s
     \<and> input_sequence s' = input_sequence s \<and> contextsequence s' = contextsequence s
     \<and> contextinputsequence s' = contextinputsequence s
     \<and> firstTrialInContext s' = firstTrialInContext s
     \<and> previousTrialtype s' = previousTrialtype s"

lemma compare_trial_step:
  assumes ct: "compare_trial a phase rd item s = Ok s'" and rd: "in_range rd"
  shows "same_lists s s' \<and> previousFillerNum s' = previousFillerNum s
           \<and> (\<exists>r j. judgementValue s' = Some j \<and> input2 s' = Some (onehot8 j)
                 \<and> j \<noteq> r \<and> 1 \<le> j \<and> j \<le> int TOTALMAXNUM
                 \<and> (\<not> (firstTrialInContext s \<and> item = 0) \<longrightarrow> judgementValue s = Some r))"
proof -
  from ct obtain s1 ri g v s2 j oh c where
    s1: "(if firstTrialInContext s \<and> item = 0 then
              bind (random_choice [0..<length rd] (rng s)) (\<lambda>(ri, g).
              bind (getitem rd ri) (\<lambda>v.
              Ok (s\<lparr>rng := g, randind := Some ri, refValue := Some v\<rparr>)))
            else bind (bound (judgementValue s)) (\<lambda>j. Ok (s\<lparr>refValue := Some j\<rparr>))) = Ok s1"
    and c2: "random_choice [0..<length rd] (rng s1) = Ok (ri, g)"
    and v: "getitem rd ri = Ok v"
    and w: "while_same_judgement rd (s1\<lparr>rng := g, randind := Some ri, judgementValue := Some v\<rparr>) = Ok s2"
    and j: "judgementValue s2 = Some j"
    and oh: "turn_one_hot j TOTALMAXNUM = Ok oh"
    and s': "s' = s2\<lparr>input2 := Some oh, context_digit := c\<rparr>"
    by (auto simp: compare_trial_def Let_def bind_Ok_iff bound_Ok_iff split: prod.splits)
  from compare_reference [OF s1] obtain g1 ri1 r where
    s1': "s1 = s\<lparr>rng := g1, randind := ri1, refValue := Some r\<rparr>"
    and keep: "\<not> (firstTrialInContext s \<and> item = 0) \<longrightarrow> judgementValue s = Some r"
    by blast
  from v have ri: "ri < length rd" and v': "v = rd ! ri" by (simp_all add: getitem_Ok_iff)
  from while_same_judgement_result [OF w]
  have ne: "refValue s2 \<noteq> judgementValue s2"
    and ex: "\<exists>g2 ri2 jv. s2 = s1\<lparr>rng := g2, randind := ri2, judgementValue := jv\<rparr>
               \<and> (jv = Some v \<or> (\<exists>k < length rd. jv = Some (rd ! k)))"
    by simp_all
  from ex obtain g2 ri2 jv where
    s2: "s2 = s1\<lparr>rng := g2, randind := ri2, judgementValue := jv\<rparr>"
    and jv: "jv = Some v \<or> (\<exists>k < length rd. jv = Some (rd ! k))"
    by blast
  from jv ri v' obtain k where k: "k < length rd" and jvk: "jv = Some (rd ! k)" by auto
  from s2 j jvk have jk: "j = rd ! k" by simp
  with in_range_nth [OF rd k] have jr: "1 \<le> j \<and> j \<le> int TOTALMAXNUM" by simp
  then have "turn_one_hot j TOTALMAXNUM = Ok (onehot8 j)"
    by (simp add: turn_one_hot_in_range onehot8_def)
  with oh have oh': "oh = onehot8 j" by simp
  from ne s2 s1' j have "j \<noteq> r" by auto
  moreover from s' s2 s1' oh' j jvk jk
  have "same_lists s s'" "previousFillerNum s' = previousFillerNum s"
    "judgementValue s' = Some j" "input2 s' = Some (onehot8 j)"
    by (simp_all add: same_lists_def)
  ultimately show ?thesis using jr keep by blast
qed


lemma filler_trial_step:
  assumes ft: "filler_trial a s = Ok s'"
  shows "same_lists s s' \<and> judgementValue s' = judgementValue s
           \<and> (\<exists>x. input2 s' = Some x \<and> previousFillerNum s' = Some x
                 \<and> (previousFillerNum s \<noteq> None \<and> previousTrialtype s = Some ''compare''
                      \<longrightarrow> Some x \<noteq> previousFillerNum s))"
proof -
  from ft obtain v g oh s2 where
    rr: "random_randint FULLR_LLIM FULLR_ULIM (rng s) = Ok (v, g)"
    and oh: "turn_one_hot v TOTALMAXNUM = Ok oh"
    and w: "(if previousFillerNum s \<noteq> None \<and> previousTrialtype s = Some ''compare''
             then while_same_filler (s\<lparr>rng := g, input2 := Some oh\<rparr>)
             else Ok (s\<lparr>rng := g, input2 := Some oh\<rparr>)) = Ok s2"
    and fin: "(if all_fullrange a then
                 bind (random_randint 1 (int NCONTEXTS) (rng (s2\<lparr>previousFillerNum := input2 s2\<rparr>)))
                   (\<lambda>(c, g). Ok (s2\<lparr>previousFillerNum := input2 s2, rng := g, context_digit := Some c\<rparr>))
               else Ok (s2\<lparr>previousFillerNum := input2 s2\<rparr>)) = Ok s'"
    by (auto simp: filler_trial_def Let_def bind_Ok_iff split: prod.splits)
  have mid: "\<exists>g2 x. s2 = s\<lparr>rng := g2, input2 := Some x\<rparr>
               \<and> (previousFillerNum s \<noteq> None \<and> previousTrialtype s = Some ''compare''
                    \<longrightarrow> Some x \<noteq> previousFillerNum s)"
  proof (cases "previousFillerNum s \<noteq> None \<and> previousTrialtype s = Some ''compare''")
    case True
    with w have "while_same_filler (s\<lparr>rng := g, input2 := Some oh\<rparr>) = Ok s2" by simp
    from while_same_filler_result [OF this]
    have ne: "input2 s2 \<noteq> previousFillerNum s2"
      and ex: "\<exists>g' x. s2 = s\<lparr>rng := g', input2 := x\<rparr> \<and> (x = Some oh \<or> (\<exists>oh. x = Some oh))"
      by simp_all
    from ex obtain g' x where s2: "s2 = s\<lparr>rng := g', input2 := Some x\<rparr>" by blast
    with ne have "Some x \<noteq> previousFillerNum s" by simp
    with s2 show ?thesis by blast
  next
    case False
    with w have "s2 = s\<lparr>rng := g, input2 := Some oh\<rparr>" by (auto split: if_splits)
    with False show ?thesis by blast
  qed
  then obtain g2 x where s2: "s2 = s\<lparr>rng := g2, input2 := Some x\<rparr>"
    and ne: "previousFillerNum s \<noteq> None \<and> previousTrialtype s = Some ''compare''
                    \<longrightarrow> Some x \<noteq> previousFillerNum s"
    by blast
  have "\<exists>g3 c. s' = s2\<lparr>previousFillerNum := input2 s2, rng := g3, context_digit := c\<rparr>"
  proof (cases "all_fullrange a")
    case True
    with fin show ?thesis by (auto simp: bind_Ok_iff split: prod.splits)
  next
    case False
    with fin have "s' = s2\<lparr>previousFillerNum := input2 s2\<rparr>" by simp
    then have "s' = s2\<lparr>previousFillerNum := input2 s2, rng := rng s2,
        context_digit := context_digit s2\<rparr>"
      by simp
    then show ?thesis by blast
  qed
  then obtain g3 c where "s' = s2\<lparr>previousFillerNum := input2 s2, rng := g3, context_digit := c\<rparr>"
    by blast
  with s2 have "same_lists s s'" "judgementValue s' = judgementValue s"
    "input2 s' = Some x" "previousFillerNum s' = Some x"
    by (simp_all add: same_lists_def)
  with ne show ?thesis by blast
qed

lemma context_input_step:
  assumes "context_input a s = Ok s'"
  shows "same_lists s s' \<and> judgementValue s' = judgementValue s \<and> input2 s' = input2 s
           \<and> previousFillerNum s' = previousFillerNum s"
proof -
  have "\<exists>g ci. s' = s\<lparr>rng := g, contextinput := ci\<rparr>"
  proof -
    consider (t) "label_context a = ''true''"
      | (r) "label_context a \<noteq> ''true''" "label_context a = ''random''"
      | (c) "label_context a \<noteq> ''true''" "label_context a \<noteq> ''random''" "label_context a = ''constant''"
      | (n) "label_context a \<noteq> ''true''" "label_context a \<noteq> ''random''" "label_context a \<noteq> ''constant''"
      by blast
    then show ?thesis
    proof cases
      case t
      with assms obtain oh where "s' = s\<lparr>contextinput := Some oh\<rparr>"
        by (auto simp: context_input_def bind_Ok_iff)
      then have "s' = s\<lparr>rng := rng s, contextinput := Some oh\<rparr>" by simp
      then show ?thesis by blast
    next
      case r
      with assms obtain g oh where "s' = s\<lparr>rng := g, contextinput := Some oh\<rparr>"
        by (auto simp: context_input_def bind_Ok_iff split: prod.splits)
      then show ?thesis by blast
    next
      case c
      with assms obtain oh where "s' = s\<lparr>contextinput := Some oh\<rparr>"
        by (auto simp: context_input_def bind_Ok_iff)
      then have "s' = s\<lparr>rng := rng s, contextinput := Some oh\<rparr>" by simp
      then show ?thesis by blast
    next
      case n
      with assms have "s' = s" by (simp add: context_input_def)
      then have "s' = s\<lparr>rng := rng s, contextinput := contextinput s\<rparr>" by simp
      then show ?thesis by blast
    qed
  qed
  then obtain g ci where "s' = s\<lparr>rng := g, contextinput := ci\<rparr>" by blast
  then show ?thesis by (simp add: same_lists_def)
qed


lemma item_body_step:
  assumes ib: "item_body a phase rd item s = Ok s'" and rd: "in_range rd"
  shows "item < length (type_sequence s) \<and> item < length (trialtypeinput s)
    \<and> type_sequence s' = type_sequence s
    \<and> trialtypeinput s' =
        (trialtypeinput s)[item := (if type_sequence s ! item = ''compare'' then 1 else 0)]
    \<and> firstTrialInContext s' = firstTrialInContext s
    \<and> previousTrialtype s' = Some (type_sequence s ! item)
    \<and> (\<exists>x. input_sequence s' = input_sequence s @ [x]
         \<and> (if type_sequence s ! item = ''compare'' then
               previousFillerNum s' = previousFillerNum s
               \<and> (\<exists>r j. judgementValue s' = Some j \<and> x = onehot8 j \<and> j \<noteq> r
                     \<and> 1 \<le> j \<and> j \<le> int TOTALMAXNUM
                     \<and> (\<not> (firstTrialInContext s \<and> item = 0) \<longrightarrow> judgementValue s = Some r))
             else judgementValue s' = judgementValue s \<and> previousFillerNum s' = Some x
               \<and> (previousFillerNum s \<noteq> None \<and> previousTrialtype s = Some ''compare''
                    \<longrightarrow> Some x \<noteq> previousFillerNum s)))"
proof -
  let ?tt = "type_sequence s ! item"
  let ?s0 = "s\<lparr>trialtypeinput := (trialtypeinput s)[item := (if ?tt = ''compare'' then 1 else 0)]\<rparr>"
  from ib obtain s1 s2 x c ci where i1: "item < length (type_sequence s)"
    and i2: "item < length (trialtypeinput s)"
    and s1: "(if ?tt = ''compare'' then compare_trial a phase rd item ?s0
              else filler_trial a ?s0) = Ok s1"
    and s2: "context_input a (s1\<lparr>previousTrialtype := Some ?tt\<rparr>) = Ok s2"
    and x: "input2 s2 = Some x"
    and s': "s' = s2\<lparr>input_sequence := input_sequence s2 @ [x],
            contextsequence := contextsequence s2 @ [c],
            contextinputsequence := contextinputsequence s2 @ [ci]\<rparr>"
    by (auto simp: item_body_def bind_Ok_iff getitem_Ok_iff store_Ok_iff bound_Ok_iff)
  note c2 = context_input_step [OF s2]
  show ?thesis
  proof (cases "?tt = ''compare''")
    case True
    with s1 have "compare_trial a phase rd item ?s0 = Ok s1" by simp
    note c1 = compare_trial_step [OF this rd]
    from c1 c2 x s' True i1 i2 show ?thesis
      by (auto simp: same_lists_def)
  next
    case False
    with s1 have "filler_trial a ?s0 = Ok s1" by simp
    note c1 = filler_trial_step [OF this]
    from c1 c2 x s' False i1 i2 show ?thesis
      by (auto simp: same_lists_def)
  qed
qed


lemma onehot8_inject:
  assumes "1 \<le> u" "u \<le> int TOTALMAXNUM" "1 \<le> v" "v \<le> int TOTALMAXNUM" "u \<noteq> v"
  shows "onehot8 u \<noteq> onehot8 v"
proof
  assume e: "onehot8 u = onehot8 v"
  from assms have ku: "nat (u - 1) < TOTALMAXNUM" and kv: "nat (v - 1) < TOTALMAXNUM"
    and ne: "nat (u - 1) \<noteq> nat (v - 1)" by auto
  from ku have "onehot8 u ! nat (u - 1) = 1" by (simp add: onehot8_def)
  moreover from kv ku ne have "onehot8 v ! nat (u - 1) = 0" by (simp add: onehot8_def)
  ultimately show False using e by simp
qed

definition cmp_at :: "string list \<Rightarrow> nat \<Rightarrow> bool" where
  "cmp_at ts k \<longleftrightarrow> ts ! k = ''compare''"

definition good_pos :: "string list \<Rightarrow> real list list \<Rightarrow> nat \<Rightarrow> bool" where
  "good_pos ts xs i \<longleftrightarrow>
     (if cmp_at ts i then
        (case last_pos (cmp_at ts) i of None \<Rightarrow> True | Some j \<Rightarrow> xs ! i \<noteq> xs ! j)
      else
        (0 < i \<and> cmp_at ts (i - 1) \<longrightarrow>
           (case last_pos (\<lambda>k. \<not> cmp_at ts k) i of None \<Rightarrow> True | Some j \<Rightarrow> xs ! i \<noteq> xs ! j)))"

definition item_inv :: "string list \<Rightarrow> nat \<Rightarrow> gen_vars \<Rightarrow> bool" where
  "item_inv ts k s \<longleftrightarrow>
     type_sequence s = ts \<and> length (trialtypeinput s) = length ts
     \<and> length (input_sequence s) = k
     \<and> (\<forall>i<k. trialtypeinput s ! i = (if cmp_at ts i then 1 else 0))
     \<and> (case last_pos (cmp_at ts) k of
           None \<Rightarrow> True
         | Some j \<Rightarrow> \<exists>v. judgementValue s = Some v \<and> input_sequence s ! j = onehot8 v
                        \<and> 1 \<le> v \<and> v \<le> int TOTALMAXNUM)
     \<and> previousFillerNum s =
         (case last_pos (\<lambda>k. \<not> cmp_at ts k) k of
            None \<Rightarrow> None | Some j \<Rightarrow> Some (input_sequence s ! j))
     \<and> previousTrialtype s = (if k = 0 then None else Some (ts ! (k - 1)))
     \<and> (\<forall>i<k. good_pos ts (input_sequence s) i)"

lemma good_pos_append:
  assumes "i < length xs"
  shows "good_pos ts (xs @ [x]) i = good_pos ts xs i"
proof -
  have "\<And>P j. last_pos P i = Some j \<Longrightarrow> (xs @ [x]) ! j = xs ! j"
    using assms by (auto dest!: last_pos_less simp: nth_append)
  moreover have "(xs @ [x]) ! i = xs ! i" using assms by (simp add: nth_append)
  ultimately show ?thesis
    by (auto simp: good_pos_def split: option.splits)
qed

lemma item_inv_step:
  assumes inv: "item_inv ts k s" and step: "item_body a phase rd k s = Ok s'"
    and rd: "in_range rd"
  shows "item_inv ts (Suc k) s'"
proof -
  note f = item_body_step [OF step rd]
  from inv have ts: "type_sequence s = ts" and len: "length (input_sequence s) = k"
    by (simp_all add: item_inv_def)
  from f obtain x where xs': "input_sequence s' = input_sequence s @ [x]" by blast
  have old: "\<And>i. i < k \<Longrightarrow> input_sequence s' ! i = input_sequence s ! i"
    using xs' len by (simp add: nth_append)
  have new: "input_sequence s' ! k = x" using xs' len by (auto simp: nth_append)
  have shape: "type_sequence s' = ts" "length (trialtypeinput s') = length ts"
    "length (input_sequence s') = Suc k"
    "\<forall>i<Suc k. trialtypeinput s' ! i = (if cmp_at ts i then 1 else 0)"
    "previousTrialtype s' = (if Suc k = 0 then None else Some (ts ! (Suc k - 1)))"
    using f inv xs' by (auto simp: item_inv_def cmp_at_def less_Suc_eq nth_list_update)
  have oldgood: "\<forall>i<k. good_pos ts (input_sequence s') i"
    using inv xs' len by (simp add: item_inv_def good_pos_append)
  show ?thesis
  proof (cases "cmp_at ts k")
    case True
    with f ts xs' obtain r j where pf: "previousFillerNum s' = previousFillerNum s"
      and j: "judgementValue s' = Some j" and xj: "x = onehot8 j" and jr: "j \<noteq> r"
      and jb: "1 \<le> j" "j \<le> int TOTALMAXNUM"
      and keep: "\<not> (firstTrialInContext s \<and> k = 0) \<longrightarrow> judgementValue s = Some r"
      by (auto simp: cmp_at_def)
    from True have lc: "last_pos (cmp_at ts) (Suc k) = Some k"
      and lf: "last_pos (\<lambda>k. \<not> cmp_at ts k) (Suc k) = last_pos (\<lambda>k. \<not> cmp_at ts k) k"
      by simp_all
    have jinv: "\<exists>v. judgementValue s' = Some v \<and> input_sequence s' ! k = onehot8 v
                        \<and> 1 \<le> v \<and> v \<le> int TOTALMAXNUM"
      using j xj jb new by simp
    have finv: "previousFillerNum s' =
         (case last_pos (\<lambda>k. \<not> cmp_at ts k) k of
            None \<Rightarrow> None | Some j \<Rightarrow> Some (input_sequence s' ! j))"
      using inv pf old by (auto simp: item_inv_def split: option.splits dest: last_pos_less)
    have goodk: "good_pos ts (input_sequence s') k"
    proof (cases "last_pos (cmp_at ts) k")
      case None
      with True show ?thesis by (simp add: good_pos_def)
    next
      case (Some p)
      then have pk: "p < k" by (rule last_pos_less)
      with inv Some obtain v where v: "judgementValue s = Some v"
        and xp: "input_sequence s ! p = onehot8 v" and vb: "1 \<le> v" "v \<le> int TOTALMAXNUM"
        by (auto simp: item_inv_def)
      from pk keep v have "r = v" by simp
      with jr jb vb have "onehot8 j \<noteq> onehot8 v" by (intro onehot8_inject) auto
      with True Some new xj xp old [OF pk] show ?thesis by (simp add: good_pos_def)
    qed
    from shape oldgood goodk jinv finv lc lf show ?thesis
      unfolding item_inv_def by (auto simp: less_Suc_eq)
  next
    case False
    with f ts xs' have jv: "judgementValue s' = judgementValue s"
      and pf: "previousFillerNum s' = Some x"
      and ne: "previousFillerNum s \<noteq> None \<and> previousTrialtype s = Some ''compare''
                    \<longrightarrow> Some x \<noteq> previousFillerNum s"
      by (auto simp: cmp_at_def)
    from False have lc: "last_pos (cmp_at ts) (Suc k) = last_pos (cmp_at ts) k"
      and lf: "last_pos (\<lambda>k. \<not> cmp_at ts k) (Suc k) = Some k"
      by simp_all
    have jinv: "case last_pos (cmp_at ts) k of
           None \<Rightarrow> True
         | Some j \<Rightarrow> \<exists>v. judgementValue s' = Some v \<and> input_sequence s' ! j = onehot8 v
                        \<and> 1 \<le> v \<and> v \<le> int TOTALMAXNUM"
      using inv jv old by (auto simp: item_inv_def split: option.splits dest: last_pos_less)
    have goodk: "good_pos ts (input_sequence s') k"
    proof (cases "0 < k \<and> cmp_at ts (k - 1)")
      case c: True
      show ?thesis
      proof (cases "last_pos (\<lambda>k. \<not> cmp_at ts k) k")
        case None
        with False show ?thesis by (simp add: good_pos_def)
      next
        case (Some p)
        then have pk: "p < k" by (rule last_pos_less)
        from inv Some have "previousFillerNum s = Some (input_sequence s ! p)"
          by (simp add: item_inv_def)
        moreover from inv c have "previousTrialtype s = Some ''compare''"
          by (auto simp: item_inv_def cmp_at_def)
        ultimately have "x \<noteq> input_sequence s ! p" using ne by auto
        with False Some new old [OF pk] show ?thesis by (simp add: good_pos_def)
      qed
    next
      case False
      with \<open>\<not> cmp_at ts k\<close> show ?thesis by (auto simp: good_pos_def)
    qed
    from shape oldgood goodk jinv pf new lc lf show ?thesis
      unfolding item_inv_def by (auto simp: less_Suc_eq)
  qed
qed


lemma sample_sequence_inv:
  assumes ss: "sample_sequence a phase rd s = Ok s'" and rd: "in_range rd"
  shows "item_inv (type_sequence s') (BPTT_len a) s'"
proof -
  from ss obtain permorder g ts where
    loop: "for_each [0..<BPTT_len a] (item_body a phase rd)
       (s\<lparr>rng := g, type_sequence := ts, trialtypeinput := replicate (length ts) 0,
          input_sequence := [], contextsequence := [], contextinputsequence := [],
          previousFillerNum := None, previousTrialtype := None\<rparr>) = Ok s'"
    by (auto simp: sample_sequence_def bind_Ok_iff split: prod.splits)
  let ?s0 = "s\<lparr>rng := g, type_sequence := ts, trialtypeinput := replicate (length ts) 0,
          input_sequence := [], contextsequence := [], contextinputsequence := [],
          previousFillerNum := None, previousTrialtype := None\<rparr>"
  have init: "item_inv ts 0 ?s0" by (simp add: item_inv_def)
  from loop init have fin: "item_inv ts (BPTT_len a) s'"
    by (rule for_each_upt_inv [where I = "item_inv ts"]) (rule item_inv_step [OF _ _ rd])
  then have "type_sequence s' = ts" by (simp add: item_inv_def)
  with fin show ?thesis by simp
qed


text \<open>
  C2, as the code has it. In every row of the dataset: a compare trial never carries the
  stimulus of the latest earlier compare trial of its sequence; the first filler after a
  compare trial never carries the stimulus of the latest earlier filler trial of its
  sequence; hence two adjacent compare trials never carry the same stimulus. Nothing
  relates a filler to the trial next to it.
\<close>

theorem no_repeat_in_sequence:
  assumes run: "sample_body a phase rd garbage idx s = Ok (s', r)"
    and rd: "in_range rd" and i: "i < BPTT_len a"
  shows "(ds_trialtypeinputs r ! i = 1 \<longrightarrow>
            (case last_compare (ds_trialtypeinputs r) i of
               None \<Rightarrow> True | Some j \<Rightarrow> ds_input r ! i \<noteq> ds_input r ! j))
       \<and> (ds_trialtypeinputs r ! i \<noteq> 1 \<and> 0 < i \<and> ds_trialtypeinputs r ! (i - 1) = 1 \<longrightarrow>
            (case last_filler (ds_trialtypeinputs r) i of
               None \<Rightarrow> True | Some j \<Rightarrow> ds_input r ! i \<noteq> ds_input r ! j))
       \<and> (0 < i \<and> ds_trialtypeinputs r ! i = 1 \<and> ds_trialtypeinputs r ! (i - 1) = 1 \<longrightarrow>
            ds_input r ! i \<noteq> ds_input r ! (i - 1))"
proof -
  from sample_body_row [OF run] obtain s1 lv where
    row: "sample_sequence a phase rd s = Ok s1
           \<and> ds_input r = input_sequence s1 \<and> ds_trialtypeinputs r = trialtypeinput s1
           \<and> label_loop a (trialtypeinput s1) (input_sequence s1) garbage = Ok lv
           \<and> ds_label r = target lv \<and> length (type_sequence s1) = BPTT_len a"
    by - (erule exE, erule exE, rule that)
  then have ss: "sample_sequence a phase rd s = Ok s1"
    and r: "ds_input r = input_sequence s1" "ds_trialtypeinputs r = trialtypeinput s1"
    by simp_all
  let ?ts = "type_sequence s1"
  let ?tts = "trialtypeinput s1"
  let ?xs = "input_sequence s1"
  note inv = sample_sequence_inv [OF ss rd]
  from inv have flags: "\<And>k. k < BPTT_len a \<Longrightarrow> (?tts ! k = 1) = cmp_at ?ts k"
    by (auto simp: item_inv_def)
  have lc: "last_compare ?tts i = last_pos (cmp_at ?ts) i"
    unfolding last_compare_def
  proof (rule last_pos_cong)
    fix k assume "k < i"
    with i have "k < BPTT_len a" by simp
    then show "(?tts ! k = 1) = cmp_at ?ts k" by (rule flags)
  qed
  have lf: "last_filler ?tts i = last_pos (\<lambda>k. \<not> cmp_at ?ts k) i"
    unfolding last_filler_def
  proof (rule last_pos_cong)
    fix k assume "k < i"
    with i have "k < BPTT_len a" by simp
    from flags [OF this] show "(?tts ! k \<noteq> 1) = (\<not> cmp_at ?ts k)" by simp
  qed
  from inv i have good: "good_pos ?ts ?xs i" by (simp add: item_inv_def)
  have a1: "?tts ! i = 1 \<longrightarrow>
            (case last_compare ?tts i of None \<Rightarrow> True | Some j \<Rightarrow> ?xs ! i \<noteq> ?xs ! j)"
    using good flags [OF i] lc by (simp add: good_pos_def)
  have a2: "?tts ! i \<noteq> 1 \<and> 0 < i \<and> ?tts ! (i - 1) = 1 \<longrightarrow>
            (case last_filler ?tts i of None \<Rightarrow> True | Some j \<Rightarrow> ?xs ! i \<noteq> ?xs ! j)"
  proof (intro impI, elim conjE)
    assume n: "?tts ! i \<noteq> 1" and p: "0 < i" and c: "?tts ! (i - 1) = 1"
    from p i have "i - 1 < BPTT_len a" by simp
    from flags [OF this] c have "cmp_at ?ts (i - 1)" by simp
    with good n p flags [OF i] lf show
      "case last_filler ?tts i of None \<Rightarrow> True | Some j \<Rightarrow> ?xs ! i \<noteq> ?xs ! j"
      by (simp add: good_pos_def)
  qed
  have a3: "0 < i \<and> ?tts ! i = 1 \<and> ?tts ! (i - 1) = 1 \<longrightarrow> ?xs ! i \<noteq> ?xs ! (i - 1)"
  proof (intro impI, elim conjE)
    assume p: "0 < i" and c: "?tts ! i = 1" and c': "?tts ! (i - 1) = 1"
    from p obtain m where m: "i = Suc m" by (cases i) auto
    with c' have "last_compare ?tts i = Some (i - 1)" by (simp add: last_compare_def)
    with a1 c show "?xs ! i \<noteq> ?xs ! (i - 1)" by simp
  qed
  from a1 a2 a3 show ?thesis unfolding r by blast
qed


text \<open>
  C2 as stated fails in the sequence of \<open>filler_run\<close>: the compare trial at position 0 and
  the filler after it carry the same stimulus, so do the fillers at positions 1 and 2, and
  so do the filler at position 5 and the compare trial at position 6.
\<close>

theorem adjacent_repeat_counterexample:
  "case filler_run of
     Ok (s, r) \<Rightarrow>
       ds_trialtypeinputs r ! 0 = 1 \<and> ds_trialtypeinputs r ! 1 = 0
       \<and> ds_input r ! 0 = ds_input r ! 1
       \<and> ds_trialtypeinputs r ! 2 = 0 \<and> ds_input r ! 1 = ds_input r ! 2
       \<and> ds_trialtypeinputs r ! 5 = 0 \<and> ds_trialtypeinputs r ! 6 = 1
       \<and> ds_input r ! 5 = ds_input r ! 6
   | _ \<Rightarrow> False"
proof -
  from filler_run_facts obtain s r where run: "filler_run = Ok (s, r)"
    and t: "ds_trialtypeinputs r ! 0 = 1 \<and> ds_trialtypeinputs r ! 1 = 0
       \<and> ds_trialtypeinputs r ! 2 = 0 \<and> ds_trialtypeinputs r ! 3 = 1
       \<and> ds_trialtypeinputs r ! 4 = 0 \<and> ds_trialtypeinputs r ! 5 = 0
       \<and> ds_trialtypeinputs r ! 6 = 1
       \<and> ds_input r ! 0 = onehot8 2 \<and> ds_input r ! 1 = onehot8 2
       \<and> ds_input r ! 2 = onehot8 2 \<and> ds_input r ! 3 = onehot8 1
       \<and> ds_input r ! 4 = onehot8 3 \<and> ds_input r ! 5 = onehot8 3
       \<and> ds_input r ! 6 = onehot8 3"
    by (rule ok_pair_cases)
  from t show ?thesis unfolding run by simp
qed

theorem no_repeat_in_sequence_witness:
  "in_range [1, 2, 3, 4] \<and> 4 < BPTT_len (run_args True) \<and> 1 < BPTT_len (run_args False)
   \<and> (case filler_run of
         Ok (s, r) \<Rightarrow>
           ds_trialtypeinputs r ! 3 = 1 \<and> last_compare (ds_trialtypeinputs r) 3 = Some 0
           \<and> ds_input r ! 3 \<noteq> ds_input r ! 0
           \<and> ds_trialtypeinputs r ! 4 \<noteq> 1 \<and> ds_trialtypeinputs r ! (4 - 1) = 1
           \<and> last_filler (ds_trialtypeinputs r) 4 = Some 2
           \<and> ds_input r ! 4 \<noteq> ds_input r ! 2
       | _ \<Rightarrow> False)
   \<and> (case compare_run of
         Ok (s1, r1) \<Rightarrow>
           (case compare_run_next s1 of
              Ok (s2, r2) \<Rightarrow>
                ds_trialtypeinputs r2 ! 1 = 1 \<and> ds_trialtypeinputs r2 ! (1 - 1) = 1
                \<and> ds_input r2 ! 1 \<noteq> ds_input r2 ! (1 - 1)
            | _ \<Rightarrow> False)
       | _ \<Rightarrow> False)"
proof -
  have rd: "in_range [1, 2, 3, 4]" by (simp add: in_range_def TOTALMAXNUM_def)
  have b: "4 < BPTT_len (run_args True)" "3 < BPTT_len (run_args True)"
    "1 < BPTT_len (run_args False)" by (simp_all add: run_args_def)
  from filler_run_facts obtain s r where run: "filler_run = Ok (s, r)"
    and t: "ds_trialtypeinputs r ! 0 = 1 \<and> ds_trialtypeinputs r ! 1 = 0
       \<and> ds_trialtypeinputs r ! 2 = 0 \<and> ds_trialtypeinputs r ! 3 = 1
       \<and> ds_trialtypeinputs r ! 4 = 0 \<and> ds_trialtypeinputs r ! 5 = 0
       \<and> ds_trialtypeinputs r ! 6 = 1
       \<and> ds_input r ! 0 = onehot8 2 \<and> ds_input r ! 1 = onehot8 2
       \<and> ds_input r ! 2 = onehot8 2 \<and> ds_input r ! 3 = onehot8 1
       \<and> ds_input r ! 4 = onehot8 3 \<and> ds_input r ! 5 = onehot8 3
       \<and> ds_input r ! 6 = onehot8 3"
    by (rule ok_pair_cases)
  from t have lc: "last_compare (ds_trialtypeinputs r) 3 = Some 0"
    and lf: "last_filler (ds_trialtypeinputs r) 4 = Some 2"
    by (simp_all add: last_compare_def last_filler_def eval_nat_numeral)
  note run' = run [unfolded filler_run_def]
  from no_repeat_in_sequence [OF run' rd b(2)] t lc
  have f3: "ds_input r ! 3 \<noteq> ds_input r ! 0" by simp
  from no_repeat_in_sequence [OF run' rd b(1)] t lf
  have f4: "ds_input r ! 4 \<noteq> ds_input r ! 2" by (simp add: eval_nat_numeral)
  from compare_run_facts obtain s1 r1 where run1: "compare_run = Ok (s1, r1)"
    and n: "case compare_run_next s1 of
          Ok (s2, r2) \<Rightarrow>
            \<not> firstTrialInContext s1 \<and> judgementValue s1 = Some 1
            \<and> ds_trialtypeinputs r1 ! 119 = 1 \<and> ds_input r1 ! 119 = onehot8 1
            \<and> ds_trialtypeinputs r2 ! 0 = 1 \<and> ds_trialtypeinputs r2 ! 1 = 1
            \<and> ds_input r2 ! 0 = onehot8 2 \<and> ds_input r2 ! 1 = onehot8 1
            \<and> ds_label r2 ! 0 = NaN \<and> ds_label r2 ! 1 = Val 0
        | _ \<Rightarrow> False"
    by (rule ok_pair_cases)
  from n obtain s2 r2 where run2: "compare_run_next s1 = Ok (s2, r2)"
    and u: "\<not> firstTrialInContext s1 \<and> judgementValue s1 = Some 1
            \<and> ds_trialtypeinputs r1 ! 119 = 1 \<and> ds_input r1 ! 119 = onehot8 1
            \<and> ds_trialtypeinputs r2 ! 0 = 1 \<and> ds_trialtypeinputs r2 ! 1 = 1
            \<and> ds_input r2 ! 0 = onehot8 2 \<and> ds_input r2 ! 1 = onehot8 1
            \<and> ds_label r2 ! 0 = NaN \<and> ds_label r2 ! 1 = Val 0"
    by (rule ok_pair_cases)
  note run2' = run2 [unfolded compare_run_next_def]
  from no_repeat_in_sequence [OF run2' rd b(3)] u
  have f1: "ds_input r2 ! 1 \<noteq> ds_input r2 ! (1 - 1)" by simp
  from rd b t lc lf f3 f4 u f1 show ?thesis unfolding run run1 by (simp add: run2)
qed

section \<open>The hand-coded baselines\<close>

lemma context_means:
  "CONTEXT_FULL_MEAN = 9 / 2" "CONTEXT_LOW_MEAN = 5 / 2" "CONTEXT_HIGH_MEAN = 13 / 2"
  by (simp_all add: CONTEXT_FULL_MEAN_def CONTEXT_LOW_MEAN_def CONTEXT_HIGH_MEAN_def
      np_mean_def py_range_def FULLR_LLIM_def FULLR_ULIM_def LOWR_LLIM_def LOWR_ULIM_def
      HIGHR_LLIM_def HIGHR_ULIM_def upto.simps)

text \<open>
  \<^verbatim>\<open>localmedians[context-1]\<close> reads the table \<^verbatim>\<open>[FULL, LOW, HIGH]\<close>: context 1 is judged
  against the mean of the full range and context 2 against the mean of the low range.
\<close>

lemma local_response_by_context:
  "get_local_model_response number 1 l =
     Ok (if eq_label (if real_of_int number > CONTEXT_FULL_MEAN then 1 else 0) l then 1 else 0)"
  "get_local_model_response number 2 l =
     Ok (if eq_label (if real_of_int number > CONTEXT_LOW_MEAN then 1 else 0) l then 1 else 0)"
  by (simp_all add: get_local_model_response_def py_index_def Let_def)

text \<open>
  C9. The local baseline is to answer 1 exactly when the stimulus exceeds the mean of the
  trial's own context (the low range for context 1, the high range for context 2), and to
  be scored correct when the answer equals the label. In the code the stimulus 3 in context
  1 with label 1 is scored incorrect although 3 exceeds the mean of the low range, and the
  stimulus 5 in context 2 with label 0 is scored incorrect although 5 does not exceed the
  mean of the high range. The global baseline compares with the overall mean: stimulus 5
  with label 1 is scored correct.
\<close>

theorem local_baseline_reads_shifted_table:
  "get_local_model_response 3 1 (Val 1) = Ok 0 \<and> real_of_int 3 > CONTEXT_LOW_MEAN
   \<and> get_local_model_response 5 2 (Val 0) = Ok 0 \<and> \<not> real_of_int 5 > CONTEXT_HIGH_MEAN
   \<and> get_global_model_response 5 2 (Val 1) = Ok 1"
  by (simp add: local_response_by_context context_means eq_label_def
      get_global_model_response_def GLOBAL_MEAN_def Let_def)

section \<open>A number of sequences the blocks do not divide\<close>

lemma phase_failure_indivisible:
  assumes "phase_N a c phase mod phase_Mblocks a c phase \<noteq> 0"
  shows "phase_failure a c phase =
           Some (if phase_Mblocks a c phase = 0 then (ZeroDivisionError, ''division by zero'')
                 else (ValueError, reshape_message (phase_N a c phase)
                         [phase_Mblocks a c phase,
                          phase_N a c phase div phase_Mblocks a c phase, 1]))"
proof (cases "phase_Mblocks a c phase = 0")
  case True
  then show ?thesis by (simp add: phase_failure_def Let_def)
next
  case False
  from assms have "phase_Mblocks a c phase * (phase_N a c phase div phase_Mblocks a c phase)
      \<noteq> phase_N a c phase"
    by (metis mod_mult_self2_is_0 mult.commute div_mult_mod_eq add.right_neutral mod_mult_self1_is_0)
  with False show ?thesis by (simp add: phase_failure_def Let_def)
qed

lemma phase_data_indivisible:
  assumes "phase_N a c phase mod phase_Mblocks a c phase \<noteq> 0"
  shows "phase_data a c garbage phase s =
           Raise (if phase_Mblocks a c phase = 0 then ZeroDivisionError else ValueError)"
  by (simp add: phase_data_def phase_failure_indivisible [OF assms])

lemma phase_body_Ok:
  assumes "phase_body a c garbage phases p st = Ok st'"
  shows "p < length phases \<and> (\<exists>y. phase_data a c (garbage p) (phases ! p) (vars st) = Ok y)"
  using assms
  by (auto simp: phase_body_def bind_Ok_iff getitem_Ok_iff split: prod.splits)

lemma phases_list:
  "map (\<lambda>i. if i = 0 then ''train'' else ''test'') [0..<MTESTSETS + 1] = [''train'', ''test'', ''test'']"
  by (simp add: MTESTSETS_def upt_rec)

lemma create_phases:
  assumes "create_separate_input_data a c garbage s0 = Ok d"
  shows "(\<exists>s y. phase_data a c (garbage 0) ''train'' s = Ok y)
       \<and> (\<exists>s y. phase_data a c (garbage 1) ''test'' s = Ok y)"
proof -
  let ?ph = "[''train'', ''test'', ''test'']"
  have three: "[0..<length ?ph] = [0, 1, 2]" by (simp add: upt_rec)
  from assms obtain st where
    "for_each [0, 1, 2] (phase_body a c garbage ?ph)
       \<lparr>vars = s0, trainset = None, testsets = replicate MTESTSETS [], whichtestset = 0\<rparr> = Ok st"
    unfolding create_separate_input_data_def phases_list Let_def three
    by (auto simp: bind_Ok_iff)
  then obtain st0 st1 st1' st2 where "phase_body a c garbage ?ph 0 st0 = Ok st1"
    "phase_body a c garbage ?ph 1 st1' = Ok st2"
    by (auto simp: bind_Ok_iff)
  from phase_body_Ok [OF this(1)] phase_body_Ok [OF this(2)] show ?thesis by auto
qed

text \<open>
  The constants of a run whose training phase asks for 5 sequences in 2 blocks, and
  arrays whose unwritten entries hold nothing.
\<close>

definition no_garbage :: "nat \<Rightarrow> nat \<Rightarrow> nat \<Rightarrow> label list" where
  "no_garbage p b k = []"

definition odd_consts :: dataset_consts where
  "odd_consts = \<lparr>NTRAIN = 5, NTEST = 4, MBLOCKS = 2, NTRAIN_LONG = 5, NTEST_LONG = 4,
     MBLOCKS_LONG = 2\<rparr>"

text \<open>
  C7. When the number of sequences \<open>N\<close> of a phase is not a multiple of the number of
  blocks \<open>Mblocks\<close>, the code makes no check of its own. The set-up of the phase fails
  before any sequence is sampled, with the \<^verbatim>\<open>ValueError\<close> numpy raises when the \<open>N\<close> indices
  are reshaped to \<^verbatim>\<open>(Mblocks, int(N/Mblocks), 1)\<close>, whose text is numpy's (or, when
  there is no block, with the \<^verbatim>\<open>ZeroDivisionError\<close> of \<^verbatim>\<open>N/Mblocks\<close>); so
  \<^verbatim>\<open>create_separate_input_data\<close> returns no dataset, whatever the random draws, and when
  the phase is the training phase this exception is the outcome of the whole call.
\<close>

theorem indivisible_count_fails:
  assumes ph: "phase = ''train'' \<or> phase = ''test''"
    and nd: "phase_N a c phase mod phase_Mblocks a c phase \<noteq> 0"
  shows "phase_failure a c phase =
           Some (if phase_Mblocks a c phase = 0 then (ZeroDivisionError, ''division by zero'')
                 else (ValueError, reshape_message (phase_N a c phase)
                         [phase_Mblocks a c phase,
                          phase_N a c phase div phase_Mblocks a c phase, 1]))
       \<and> phase_data a c garbage phase s =
           Raise (if phase_Mblocks a c phase = 0 then ZeroDivisionError else ValueError)
       \<and> (\<forall>d. create_separate_input_data a c garbage' s0 \<noteq> Ok d)
       \<and> (phase = ''train'' \<longrightarrow>
            create_separate_input_data a c garbage' s0 =
              Raise (if phase_Mblocks a c phase = 0 then ZeroDivisionError else ValueError))"
proof (intro conjI allI impI)
  show "phase_failure a c phase =
           Some (if phase_Mblocks a c phase = 0 then (ZeroDivisionError, ''division by zero'')
                 else (ValueError, reshape_message (phase_N a c phase)
                         [phase_Mblocks a c phase,
                          phase_N a c phase div phase_Mblocks a c phase, 1]))"
    using nd by (rule phase_failure_indivisible)
next
  show "phase_data a c garbage phase s =
           Raise (if phase_Mblocks a c phase = 0 then ZeroDivisionError else ValueError)"
    using nd by (rule phase_data_indivisible)
next
  fix d
  show "create_separate_input_data a c garbage' s0 \<noteq> Ok d"
  proof
    assume "create_separate_input_data a c garbage' s0 = Ok d"
    from create_phases [OF this] ph phase_data_indivisible [OF nd] show False by auto
  qed
next
  assume t: "phase = ''train''"
  with phase_data_indivisible [OF nd]
  have "\<And>g s. phase_data a c g ''train'' s =
           Raise (if phase_Mblocks a c phase = 0 then ZeroDivisionError else ValueError)" by simp
  then show "create_separate_input_data a c garbage' s0 =
              Raise (if phase_Mblocks a c phase = 0 then ZeroDivisionError else ValueError)"
    unfolding create_separate_input_data_def phases_list Let_def
    by (simp add: upt_rec phase_body_def getitem_def)
qed

text \<open>
  With 5 training sequences and 2 blocks the arrays are sized for 2 sequences in each of
  the 2 blocks, and the call ends with numpy's exception about the reshape.
\<close>

theorem indivisible_count_counterexample:
  "phase_N (run_args False) odd_consts ''train'' = 5
   \<and> phase_Mblocks (run_args False) odd_consts ''train'' = 2
   \<and> phase_N (run_args False) odd_consts ''train''
        div phase_Mblocks (run_args False) odd_consts ''train'' = 2
   \<and> phase_failure (run_args False) odd_consts ''train'' =
        Some (ValueError, ''cannot reshape array of size 5 into shape (2,2,1)'')
   \<and> create_separate_input_data (run_args False) odd_consts no_garbage (run_vars [] [])
       = Raise ValueError"
proof -
  have n: "phase_N (run_args False) odd_consts ''train'' = 5"
    "phase_Mblocks (run_args False) odd_consts ''train'' = 2"
    by (simp_all add: phase_N_def phase_Mblocks_def run_args_def odd_consts_def)
  have f: "phase_failure (run_args False) odd_consts ''train'' =
        Some (ValueError, ''cannot reshape array of size 5 into shape (2,2,1)'')"
    by (simp add: phase_failure_def n Let_def reshape_message_def shape_str_def py_str.simps)
  have "create_separate_input_data (run_args False) odd_consts no_garbage (run_vars [] [])
       = Raise ValueError"
    unfolding create_separate_input_data_def phases_list Let_def
    by (simp add: upt_rec phase_body_def getitem_def phase_data_def f)
  with n f show ?thesis by simp
qed

theorem indivisible_count_fails_witness:
  "(''train'' = ''train'' \<or> ''train'' = ''test'')
   \<and> phase_N (run_args False) odd_consts ''train''
        mod phase_Mblocks (run_args False) odd_consts ''train'' \<noteq> 0
   \<and> phase_failure (run_args False) odd_consts ''train'' =
        Some (ValueError, reshape_message 5 [2, 2, 1])
   \<and> phase_data (run_args False) odd_consts (\<lambda>b k. []) ''train'' (run_vars [] []) = Raise ValueError
   \<and> create_separate_input_data (run_args False) odd_consts (\<lambda>p b k. []) (run_vars [] [])
       = Raise ValueError"
proof -
  have p: "''train'' = ''train'' \<or> ''train'' = ''test''" by simp
  have n: "phase_N (run_args False) odd_consts ''train'' = 5"
    "phase_Mblocks (run_args False) odd_consts ''train'' = 2"
    by (simp_all add: phase_N_def phase_Mblocks_def run_args_def odd_consts_def)
  have nd: "phase_N (run_args False) odd_consts ''train''
        mod phase_Mblocks (run_args False) odd_consts ''train'' \<noteq> 0"
    by (simp add: n)
  from indivisible_count_fails [OF p nd, of "\<lambda>b k. []" "run_vars [] []" "\<lambda>p b k. []" "run_vars [] []"]
    p nd n show ?thesis by simp
qed

section \<open>A small network and two short sequences\<close>

text \<open>
  A network with one hidden unit, whose hidden state adds up the entries of every input
  it is given and whose output is a quarter of the hidden state it starts from; a
  criterion (the squared error); sources of pseudo-random values; \<open>toy_batch\<close>, a sequence
  of a compare trial, a filler trial and a compare trial, and \<open>unscored_batch\<close>, a sequence
  of a compare trial (the first of its sequence, so without label) and a filler trial.
\<close>

definition toy_model :: model where
  "toy_model =
     \<lparr>recurrent_size = 1, hidden_noise = 0,
      forward = (\<lambda>x h. ([[sum_list (concat h) / 4]], map (map (\<lambda>v. v + sum_list (concat x))) h)),
      fc1_activations = (\<lambda>x h. h)\<rparr>"

definition toy_criterion :: "tensor \<Rightarrow> label \<Rightarrow> real" where
  "toy_criterion output l = (case l of NaN \<Rightarrow> 0 | Val v \<Rightarrow> (sum_list (concat output) - v)\<^sup>2)"

definition toy_sources :: sources where
  "toy_sources = \<lparr>uniform = (\<lambda>b i. 1 / 2), normal = (\<lambda>b i r c. 1)\<rparr>"

definition toy_batch :: batch where
  "toy_batch =
     \<lparr>d_input = [[onehot8 2], [onehot8 7], [onehot8 3]],
      d_label = [NaN, Val 7, Val 1],
      d_context = [[[1, 0]], [[1, 0]], [[1, 0]]],
      d_contextinput = [[[1, 0]], [[1, 0]], [[1, 0]]],
      d_trialtypeinput = [[[1]], [[0]], [[1]]]\<rparr>"

definition unscored_batch :: batch where
  "unscored_batch =
     \<lparr>d_input = [[onehot8 2], [onehot8 7]],
      d_label = [NaN, Val 7],
      d_context = [[[1, 0]], [[1, 0]]],
      d_contextinput = [[[1, 0]], [[1, 0]]],
      d_trialtypeinput = [[[1]], [[0]]]\<rparr>"

section \<open>The division by the number of scored trials\<close>

lemma unscored_test:
  "recurrent_test (run_args False) toy_model toy_criterion toy_sources [unscored_batch]
     = Raise ZeroDivisionError"
  by code_simp

lemma unscored_train:
  "recurrent_train (run_args False) toy_criterion (\<lambda>m d xs h. m) toy_sources toy_model
     [unscored_batch] = Raise AttributeError"
proof -
  let ?r = "recurrent_train (run_args False) toy_criterion (\<lambda>m d xs h. m) toy_sources toy_model
     [unscored_batch]"
  have "case ?r of Raise e \<Rightarrow> e = AttributeError | _ \<Rightarrow> False" by code_simp
  then show ?thesis by (cases ?r) simp_all
qed

lemma empty_loader:
  "recurrent_test a m criterion src [] = Raise ZeroDivisionError"
  "recurrent_train a criterion optimizer_step src m [] = Raise ZeroDivisionError"
  by (simp_all add: recurrent_test_def recurrent_train_def enumerate_def test_init_def
      train_init_def)

text \<open>
  C8. The division of the accumulated loss and of the number of correct answers by the
  number of scored trials is not guarded in \<^verbatim>\<open>recurrent_train\<close> and \<^verbatim>\<open>recurrent_test\<close>: on
  a loader without sequences both raise \<^verbatim>\<open>ZeroDivisionError\<close>; on a loader whose only
  sequence has no scored trial \<^verbatim>\<open>recurrent_test\<close> raises \<^verbatim>\<open>ZeroDivisionError\<close>, and
  \<^verbatim>\<open>recurrent_train\<close> already raises at \<^verbatim>\<open>loss.backward()\<close>, the loss still being the
  integer 0.
\<close>

theorem normalisation_divides_by_zero:
  "recurrent_test a m criterion src [] = Raise ZeroDivisionError
   \<and> recurrent_train a criterion optimizer_step src m [] = Raise ZeroDivisionError
   \<and> recurrent_test (run_args False) toy_model toy_criterion toy_sources [unscored_batch]
       = Raise ZeroDivisionError
   \<and> recurrent_train (run_args False) toy_criterion (\<lambda>m d xs h. m) toy_sources toy_model
       [unscored_batch] = Raise AttributeError"
  using empty_loader(1) [of a m criterion src] empty_loader(2) [of a criterion optimizer_step src m]
    unscored_test unscored_train
  by simp

section \<open>The inputs of the recurrent loops\<close>

text \<open>
  The parts of a row of an input \<^verbatim>\<open>torch.cat((stimulus, context, trialtype), 1)\<close>: the
  first \<open>TOTALMAXNUM\<close> entries and the \<open>NCONTEXTS\<close> entries after them. \<open>shaped d i\<close> holds
  when position \<open>i\<close> of the batch has stimulus rows and context rows of these widths, one
  of each per sequence of the batch. \<open>filler_input d i\<close> is the input of position \<open>i\<close>
  with the context replaced by zeros, and \<open>zero_context d i x\<close> says that \<open>x\<close> has one row
  per sequence of the batch and that the context part of every row is zero.
\<close>

definition stimulus_slice :: "real list \<Rightarrow> real list" where
  "stimulus_slice row = take TOTALMAXNUM row"

definition context_slice :: "real list \<Rightarrow> real list" where
  "context_slice row = take NCONTEXTS (drop TOTALMAXNUM row)"

definition shaped :: "batch \<Rightarrow> nat \<Rightarrow> bool" where
  "shaped d i \<longleftrightarrow>
     list_all (\<lambda>row. length row = TOTALMAXNUM) (d_input d ! i)
     \<and> list_all (\<lambda>row. length row = NCONTEXTS) (d_contextinput d ! i)
     \<and> length (d_contextinput d ! i) = length (d_input d ! i)
     \<and> length (d_trialtypeinput d ! i) = length (d_input d ! i)"

definition filler_input :: "batch \<Rightarrow> nat \<Rightarrow> tensor" where
  "filler_input d i =
     torch_cat (d_input d ! i) (full_like_0 (d_contextinput d ! i)) (d_trialtypeinput d ! i)"

definition zero_context :: "batch \<Rightarrow> nat \<Rightarrow> tensor \<Rightarrow> bool" where
  "zero_context d i x \<longleftrightarrow>
     length x = length (d_input d ! i)
     \<and> list_all (\<lambda>row. context_slice row = replicate NCONTEXTS 0) x"

lemma filler_input_context:
  assumes "shaped d i"
  shows "length (filler_input d i) = length (d_input d ! i)
       \<and> list_all (\<lambda>row. context_slice row = replicate NCONTEXTS 0) (filler_input d i)"
proof -
  let ?x = "d_input d ! i" and ?c = "d_contextinput d ! i" and ?t = "d_trialtypeinput d ! i"
  from assms have lx: "\<And>j. j < length ?x \<Longrightarrow> length (?x ! j) = TOTALMAXNUM"
    and lc: "\<And>j. j < length ?c \<Longrightarrow> length (?c ! j) = NCONTEXTS"
    and n: "length ?c = length ?x" "length ?t = length ?x"
    by (auto simp: shaped_def list_all_length)
  have len: "length (filler_input d i) = length ?x"
    by (simp add: filler_input_def torch_cat_def full_like_0_def n)
  have "context_slice (filler_input d i ! j) = replicate NCONTEXTS 0" if j: "j < length ?x" for j
  proof -
    have "filler_input d i ! j = ?x ! j @ map (\<lambda>_. 0) (?c ! j) @ ?t ! j"
      using j by (simp add: filler_input_def torch_cat_def full_like_0_def n)
    moreover have "map (\<lambda>_. 0::real) (?c ! j) = replicate NCONTEXTS 0"
      using lc [of j] j n by (simp add: map_replicate_const)
    ultimately show ?thesis using lx [OF j] by (simp add: context_slice_def)
  qed
  with len show ?thesis by (simp add: list_all_length)
qed

lemma test_input_body_step:
  assumes "test_input_body d i inputs = Ok inputs'"
  shows "length inputs' = Suc (length inputs) \<and> (\<forall>k < length inputs. inputs' ! k = inputs ! k)
       \<and> (first_flag (d_trialtypeinput d ! i) = Ok 0 \<longrightarrow> inputs' ! length inputs = filler_input d i)"
  using assms
  by (auto simp: test_input_body_def bind_Ok_iff getitem_Ok_iff Let_def filler_input_def
      nth_append)

lemma lesion_input_body_step:
  assumes "lesion_input_body d i inputs = Ok inputs'"
  shows "length inputs' = Suc (length inputs) \<and> (\<forall>k < length inputs. inputs' ! k = inputs ! k)
       \<and> (first_flag (d_trialtypeinput d ! i) = Ok 0 \<longrightarrow> inputs' ! length inputs = filler_input d i)"
  using assms
  by (auto simp: lesion_input_body_def bind_Ok_iff getitem_Ok_iff Let_def filler_input_def
      nth_append)

lemma activation_input_body_step:
  assumes "activation_input_body d i inputs = Ok inputs'"
  shows "length inputs' = Suc (length inputs) \<and> (\<forall>k < length inputs. inputs' ! k = inputs ! k)
       \<and> (first_flag (d_trialtypeinput d ! i) = Ok 0 \<longrightarrow> inputs' ! length inputs = filler_input d i)"
  using assms
  by (auto simp: activation_input_body_def bind_Ok_iff getitem_Ok_iff Let_def filler_input_def
      nth_append)

lemma train_input_body_step:
  assumes "train_input_body a u d i s = Ok s'"
  shows "length (recurrentinputs s') = Suc (length (recurrentinputs s))
       \<and> (\<forall>k < length (recurrentinputs s). recurrentinputs s' ! k = recurrentinputs s ! k)
       \<and> (first_flag (d_trialtypeinput d ! i) = Ok 0 \<longrightarrow>
            recurrentinputs s' ! length (recurrentinputs s) = filler_input d i)"
proof -
  let ?choice = "\<lambda>flag. (if flag = 0 then Ok (full_like_0 (d_contextinput d ! i), d_input d ! i, lesionRecord s)
           else if retrain_decoder a then
             (if alternate_lesion_trial s then
                bind (store (lesionRecord s) i 1) (\<lambda>lr. Ok (d_contextinput d ! i, full_like_0 (d_input d ! i), lr))
              else Ok (d_contextinput d ! i, d_input d ! i, lesionRecord s))
           else
             (if u i < train_lesion_freq a then
                bind (store (lesionRecord s) i 1) (\<lambda>lr. Ok (d_contextinput d ! i, full_like_0 (d_input d ! i), lr))
              else Ok (d_contextinput d ! i, d_input d ! i, lesionRecord s)))"
  from assms obtain flag ci li lr where f: "first_flag (d_trialtypeinput d ! i) = Ok flag"
    and c: "?choice flag = Ok (ci, li, lr)"
    and s': "s' = s\<lparr>recurrentinputs := recurrentinputs s @ [torch_cat li ci (d_trialtypeinput d ! i)],
            lesionRecord := lr,
            alternate_lesion_trial := (if alternate_lesion_trial s then False else True)\<rparr>"
    unfolding train_input_body_def bind_Ok_iff getitem_Ok_iff
    by (auto split: prod.splits)
  have r: "recurrentinputs s' = recurrentinputs s @ [torch_cat li ci (d_trialtypeinput d ! i)]"
    unfolding s' by simp
  have "li = d_input d ! i \<and> ci = full_like_0 (d_contextinput d ! i)" if "flag = 0"
    using c that by simp
  with f r show ?thesis by (auto simp: nth_append filler_input_def)
qed

text \<open>A loop that appends one input per position.\<close>

lemma appending_loop:
  assumes run: "for_each [0..<n] body s = Ok s'"
    and start: "sel s = []"
    and step: "\<And>k t t'. body k t = Ok t' \<Longrightarrow>
       length (sel t') = Suc (length (sel t)) \<and> (\<forall>j < length (sel t). sel t' ! j = sel t ! j)
       \<and> (P k \<longrightarrow> sel t' ! length (sel t) = g k)"
  shows "length (sel s') = n \<and> (\<forall>i < n. P i \<longrightarrow> sel s' ! i = g i)"
proof -
  let ?I = "\<lambda>k t. length (sel t) = k \<and> (\<forall>i < k. P i \<longrightarrow> sel t ! i = g i)"
  have "?I n s'"
  proof (rule for_each_upt_inv [OF run, where I = ?I])
    show "?I 0 s" using start by simp
  next
    fix k t t'
    assume k: "k < n" and I: "?I k t" and b: "body k t = Ok t'"
    from step [OF b] I show "?I (Suc k) t'" by (auto simp: less_Suc_eq)
  qed
  then show ?thesis .
qed

lemma test_inputs_filler:
  assumes "test_inputs d = Ok xs" and "i < length (d_input d)"
    and "first_flag (d_trialtypeinput d ! i) = Ok 0"
  shows "xs ! i = filler_input d i"
  using appending_loop [where sel = "\<lambda>x. x" and body = "test_input_body d"
      and P = "\<lambda>i. first_flag (d_trialtypeinput d ! i) = Ok 0" and g = "filler_input d",
      OF assms(1) [unfolded test_inputs_def] refl test_input_body_step] assms(2,3)
  by simp

lemma lesion_inputs_filler:
  assumes "lesion_inputs d = Ok xs" and "i < length (d_input d)"
    and "first_flag (d_trialtypeinput d ! i) = Ok 0"
  shows "xs ! i = filler_input d i"
  using appending_loop [where sel = "\<lambda>x. x" and body = "lesion_input_body d"
      and P = "\<lambda>i. first_flag (d_trialtypeinput d ! i) = Ok 0" and g = "filler_input d",
      OF assms(1) [unfolded lesion_inputs_def] refl lesion_input_body_step] assms(2,3)
  by simp

lemma activation_inputs_filler:
  assumes "activation_inputs d = Ok xs" and "i < length (d_input d)"
    and "first_flag (d_trialtypeinput d ! i) = Ok 0"
  shows "xs ! i = filler_input d i"
  using appending_loop [where sel = "\<lambda>x. x" and body = "activation_input_body d"
      and P = "\<lambda>i. first_flag (d_trialtypeinput d ! i) = Ok 0" and g = "filler_input d",
      OF assms(1) [unfolded activation_inputs_def] refl activation_input_body_step] assms(2,3)
  by simp

lemma train_inputs_filler:
  assumes "train_inputs a u d = Ok iv" and "i < length (d_input d)"
    and "first_flag (d_trialtypeinput d ! i) = Ok 0"
  shows "recurrentinputs iv ! i = filler_input d i"
proof -
  from assms(1) have run: "for_each [0..<length (d_input d)] (train_input_body a u d)
        \<lparr>recurrentinputs = [], lesionRecord = replicate (length (d_input d)) 0,
         alternate_lesion_trial = True\<rparr> = Ok iv"
    by (simp add: train_inputs_def Let_def)
  from appending_loop [where sel = recurrentinputs and body = "train_input_body a u d"
      and P = "\<lambda>i. first_flag (d_trialtypeinput d ! i) = Ok 0" and g = "filler_input d",
      OF run _ train_input_body_step] assms(2,3)
  show ?thesis by simp
qed

section \<open>The pass over a lesioned sequence\<close>

text \<open>
  \<open>run_hidden m z xs k h\<close> is the hidden state after the network has been stepped through
  the inputs \<open>xs ! 0\<close>, ..., \<open>xs ! (k - 1)\<close> from the hidden state \<open>h\<close>, the noise of
  step \<open>j\<close> being drawn from \<open>z j\<close>. \<open>lesioned whichLesion x\<close> is the input \<open>x\<close> after the
  assignment of the block \<^verbatim>\<open>if lesionRecord[trial]==1:\<close> to its first row.
\<close>

fun run_hidden :: "model \<Rightarrow> (nat \<Rightarrow> nat \<Rightarrow> nat \<Rightarrow> real) \<Rightarrow> tensor list \<Rightarrow> nat \<Rightarrow> tensor \<Rightarrow> tensor" where
  "run_hidden m z xs 0 h = h"
| "run_hidden m z xs (Suc k) h =
     (let h' = run_hidden m z xs k h
      in snd (forward m (xs ! k) (tensor_add h' (noise_tensor m (z k) h'))))"

definition lesioned :: "string \<Rightarrow> tensor \<Rightarrow> tensor" where
  "lesioned whichLesion x =
     x[0 := (if whichLesion = ''number'' then zero_slice 0 TOTALMAXNUM (x ! 0)
             else zero_slice TOTALMAXNUM (TOTALMAXNUM + NCONTEXTS) (x ! 0))]"

lemma run_hidden_cong:
  "(\<And>j. j < k \<Longrightarrow> xs ! j = ys ! j) \<Longrightarrow> run_hidden m z xs k h = run_hidden m z ys k h"
  by (induction k) (simp_all add: Let_def)

lemma noise_like_Ok_iff:
  "noise_like m z h = Ok n \<longleftrightarrow> \<not> hidden_noise m < 0 \<and> n = noise_tensor m z h"
  by (auto simp: noise_like_def)

lemma apply_lesion_step:
  assumes "apply_lesion w lr trial s = Ok s1" and "tmpinputs s = Some ti"
  shows "trial < length lr
       \<and> tmpinputs s1 = Some (if lr ! trial = 1 then ti[trial := lesioned w (ti ! trial)] else ti)
       \<and> l_hidden s1 = l_hidden s \<and> l_aliased s1 = l_aliased s
       \<and> l_latentstate s1 = l_latentstate s"
  using assms
  by (auto simp: apply_lesion_def bind_Ok_iff getitem_Ok_iff bound_Ok_iff lesioned_def Let_def
      split: if_splits)

lemma lesion_step_hidden:
  assumes "lesion_step m w lr z d assess_idx trial s = Ok s'" and "tmpinputs s = Some ti"
  shows "trial < length ti
       \<and> tmpinputs s' = Some (if lr ! trial = 1 then ti[trial := lesioned w (ti ! trial)] else ti)
       \<and> l_hidden s' =
           snd (forward m ((if lr ! trial = 1 then ti[trial := lesioned w (ti ! trial)] else ti) ! trial)
             (tensor_add (l_hidden s) (noise_tensor m (z trial) (l_hidden s))))"
proof -
  let ?ti = "if lr ! trial = 1 then ti[trial := lesioned w (ti ! trial)] else ti"
  from assms(1) obtain s1 where a: "apply_lesion w lr trial s = Ok s1"
    and r: "bind (noise_like m (z trial) (l_hidden s1)) (\<lambda>noise.
     let h1 = tensor_add (l_hidden s1) noise;
         lat1 = (if l_aliased s1 then h1 else l_latentstate s1) in
     bind (bound (tmpinputs s1)) (\<lambda>ti.
     bind (getitem ti trial) (\<lambda>x.
     let (output, h) = forward m x h1;
         (h0activations, h1activations, out2) = get_activations m x h;
         s2 = s1\<lparr>l_hidden := h, l_latentstate := lat1, l_aliased := False\<rparr> in
     bind (getitem (d_trialtypeinput d) trial) (\<lambda>tt.
     bind (flag_is_one tt) (\<lambda>cmp.
     if cmp then
       bind (getitem (d_label d) trial) (\<lambda>l.
       bind (answer_correct output l) (\<lambda>n.
       let s3 = s2\<lparr>ncomparetrials := ncomparetrials s2 + 1,
                    overallperf := overallperf s2 + n,
                    overallcomparisons := overallcomparisons s2 + 1\<rparr>
       in if trial = assess_idx then
            Ok (s3\<lparr>lesionperf := Some n, post_lesion_activations := Some h1activations\<rparr>)
          else Ok s3))
     else Ok s2))))) = Ok s'"
    unfolding lesion_step_def bind_Ok_iff [of "apply_lesion w lr trial s"] by blast
  from apply_lesion_step [OF a assms(2)] have t1: "tmpinputs s1 = Some ?ti"
    and h1: "l_hidden s1 = l_hidden s" by simp_all
  from r t1 h1 show ?thesis
    by (auto simp: bind_Ok_iff noise_like_Ok_iff bound_Ok_iff getitem_Ok_iff Let_def
        split: prod.splits if_splits)
qed


lemma lesion_pass:
  assumes run: "for_each [0..<n] (lesion_step m w lr z d assess_idx) s = Ok s'"
    and start: "tmpinputs s = Some inputs"
  shows "\<exists>fed. tmpinputs s' = Some fed \<and> length fed = length inputs \<and> n \<le> length inputs
       \<and> (\<forall>t < length inputs. fed ! t =
             (if t < n \<and> lr ! t = 1 then lesioned w (inputs ! t) else inputs ! t))
       \<and> l_hidden s' = run_hidden m z fed n (l_hidden s)"
proof -
  let ?I = "\<lambda>k t. \<exists>fed. tmpinputs t = Some fed \<and> length fed = length inputs \<and> k \<le> length inputs
       \<and> (\<forall>j < length inputs. fed ! j =
             (if j < k \<and> lr ! j = 1 then lesioned w (inputs ! j) else inputs ! j))
       \<and> l_hidden t = run_hidden m z fed k (l_hidden s)"
  have "?I n s'"
  proof (rule for_each_upt_inv [OF run, where I = ?I])
    show "?I 0 s" using start by simp
  next
    fix k t t'
    assume k: "k < n" and I: "?I k t" and b: "lesion_step m w lr z d assess_idx k t = Ok t'"
    from I obtain fed where f: "tmpinputs t = Some fed" and len: "length fed = length inputs"
      and el: "\<forall>j < length inputs. fed ! j =
             (if j < k \<and> lr ! j = 1 then lesioned w (inputs ! j) else inputs ! j)"
      and h: "l_hidden t = run_hidden m z fed k (l_hidden s)" by blast
    let ?fed = "if lr ! k = 1 then fed[k := lesioned w (fed ! k)] else fed"
    from lesion_step_hidden [OF b f] have kl: "k < length fed"
      and f': "tmpinputs t' = Some ?fed"
      and h': "l_hidden t' = snd (forward m (?fed ! k)
             (tensor_add (l_hidden t) (noise_tensor m (z k) (l_hidden t))))" by simp_all
    have same: "run_hidden m z ?fed k (l_hidden s) = run_hidden m z fed k (l_hidden s)"
      by (rule run_hidden_cong) simp
    have fk: "fed ! k = inputs ! k" using el kl len by simp
    have el': "\<forall>j < length inputs. ?fed ! j =
             (if j < Suc k \<and> lr ! j = 1 then lesioned w (inputs ! j) else inputs ! j)"
      using el kl len fk by (auto simp: nth_list_update less_Suc_eq)
    have "l_hidden t' = run_hidden m z ?fed (Suc k) (l_hidden s)"
      using h' h same by (simp add: Let_def)
    with f' el' kl len show "?I (Suc k) t'" by auto
  qed
  then show ?thesis .
qed

lemma zero_slice_stimulus:
  assumes "TOTALMAXNUM + NCONTEXTS \<le> length row"
  shows "stimulus_slice (zero_slice 0 TOTALMAXNUM row) = replicate TOTALMAXNUM 0"
    and "context_slice (zero_slice 0 TOTALMAXNUM row) = context_slice row"
    and "drop (TOTALMAXNUM + NCONTEXTS) (zero_slice 0 TOTALMAXNUM row)
           = drop (TOTALMAXNUM + NCONTEXTS) row"
  using assms
  by (auto simp: stimulus_slice_def context_slice_def zero_slice_def map_replicate_const
      min_def)

lemma zero_slice_context:
  assumes "TOTALMAXNUM + NCONTEXTS \<le> length row"
  shows "context_slice (zero_slice TOTALMAXNUM (TOTALMAXNUM + NCONTEXTS) row)
           = replicate NCONTEXTS 0"
    and "stimulus_slice (zero_slice TOTALMAXNUM (TOTALMAXNUM + NCONTEXTS) row)
           = stimulus_slice row"
    and "drop (TOTALMAXNUM + NCONTEXTS) (zero_slice TOTALMAXNUM (TOTALMAXNUM + NCONTEXTS) row)
           = drop (TOTALMAXNUM + NCONTEXTS) row"
  using assms
  by (auto simp: stimulus_slice_def context_slice_def zero_slice_def map_replicate_const
      min_def)

text \<open>
  \<open>lesion_of whichLesion x y\<close>: the input \<open>y\<close> is the input \<open>x\<close> with one part of its first
  row replaced by zeros, the stimulus part when \<open>whichLesion\<close> is \<^verbatim>\<open>'number'\<close> and the
  context part otherwise, and nothing else changed.
\<close>

definition lesion_of :: "string \<Rightarrow> tensor \<Rightarrow> tensor \<Rightarrow> bool" where
  "lesion_of whichLesion x y \<longleftrightarrow>
     (if whichLesion = ''number'' then
        stimulus_slice (y ! 0) = replicate TOTALMAXNUM 0
        \<and> context_slice (y ! 0) = context_slice (x ! 0)
      else
        context_slice (y ! 0) = replicate NCONTEXTS 0
        \<and> stimulus_slice (y ! 0) = stimulus_slice (x ! 0))
     \<and> drop (TOTALMAXNUM + NCONTEXTS) (y ! 0) = drop (TOTALMAXNUM + NCONTEXTS) (x ! 0)
     \<and> tl y = tl x"

lemma lesioned_is_lesion:
  assumes "x \<noteq> []" and "TOTALMAXNUM + NCONTEXTS \<le> length (x ! 0)"
  shows "lesion_of w x (lesioned w x)"
proof -
  obtain r0 rest where x: "x = r0 # rest" using assms(1) by (cases x) auto
  with assms(2) have l: "TOTALMAXNUM + NCONTEXTS \<le> length r0" by simp
  show ?thesis
    unfolding x lesioned_def lesion_of_def
    using zero_slice_stimulus [OF l] zero_slice_context [OF l] by simp
qed

lemma handover_step_hidden:
  assumes "handover_step m z i s = Ok s'" and "tmpinputs s = Some ti"
  shows "tmpinputs s' = Some ti
       \<and> l_hidden s' = snd (forward m (ti ! i)
            (tensor_add (l_hidden s) (noise_tensor m (z i) (l_hidden s))))"
  using assms
  by (auto simp: handover_step_def Let_def bind_Ok_iff noise_like_Ok_iff bound_Ok_iff
      getitem_Ok_iff)

lemma handover_loop:
  assumes run: "for_each [0..<n] (handover_step m z) s = Ok s'"
    and start: "tmpinputs s = Some ti"
  shows "tmpinputs s' = Some ti \<and> l_hidden s' = run_hidden m z ti n (l_hidden s)"
proof -
  let ?I = "\<lambda>k t. tmpinputs t = Some ti \<and> l_hidden t = run_hidden m z ti k (l_hidden s)"
  have "?I n s'"
  proof (rule for_each_upt_inv [OF run, where I = ?I])
    show "?I 0 s" using start by simp
  next
    fix k t t'
    assume "k < n" and I: "?I k t" and b: "handover_step m z k t = Ok t'"
    from I have f: "tmpinputs t = Some ti" by simp
    from handover_step_hidden [OF b f] I show "?I (Suc k) t'" by (simp add: Let_def)
  qed
  then show ?thesis .
qed

lemma handover_needs_inputs:
  assumes "for_each [0..<Suc n] (handover_step m z) s = Ok s'"
  shows "\<exists>ti. tmpinputs s = Some ti"
proof -
  have "[0..<Suc n] = 0 # [1..<Suc n]" by (simp add: upt_rec)
  with assms obtain t where "handover_step m z 0 s = Ok t" by (auto simp: bind_Ok_iff)
  then show ?thesis
    by (auto simp: handover_step_def Let_def bind_Ok_iff bound_Ok_iff)
qed

lemma handover_pass_fed:
  assumes "handover_pass m src d k s = Ok s'"
  shows "tmpinputs s' = tmpinputs s
       \<and> (if int k = int (length (d_input d)) - 2 then
            \<exists>fed. tmpinputs s = Some fed
              \<and> l_hidden s' = run_hidden m (handover_normal src) fed (k + 1) (l_hidden s)
              \<and> l_latentstate s' = l_hidden s'
          else l_hidden s' = l_hidden s)"
proof (cases "int k = int (length (d_input d)) - 2")
  case False
  with assms show ?thesis by (simp add: handover_pass_def)
next
  case True
  with assms obtain s3 where
    loop: "for_each [0..<Suc k] (handover_step m (handover_normal src)) s = Ok s3"
    and s': "s' = s3\<lparr>l_latentstate := l_hidden s3, l_aliased := True\<rparr>"
    by (auto simp: handover_pass_def bind_Ok_iff)
  from handover_needs_inputs [OF loop] obtain ti where ti: "tmpinputs s = Some ti" by blast
  from handover_loop [OF loop ti] ti True show ?thesis unfolding s' by simp
qed

lemma assess_pass_fed:
  assumes "assess_pass m w lf src d inputs k context s0 = Ok s2"
  shows "\<exists>lesion_rec fed. mark_lesions lf (lesion_uniform src k) d k = Ok lesion_rec
       \<and> tmpinputs s2 = Some fed \<and> length fed = length inputs \<and> k < length inputs
       \<and> (\<forall>t < length inputs. fed ! t =
             (if t \<le> k \<and> lesion_rec ! t = 1 then lesioned w (inputs ! t) else inputs ! t))
       \<and> l_hidden s2 = run_hidden m (lesion_normal src k) fed (k + 1) (l_hidden s0)"
proof -
  from assms obtain lesion_rec s1 where
    mk: "mark_lesions lf (lesion_uniform src k) d k = Ok lesion_rec"
    and loop: "for_each [0..<k + 1] (lesion_step m w lesion_rec (lesion_normal src k) d k)
             (s0\<lparr>tmpinputs := Some inputs, overallperf := 0, ncomparetrials := 0\<rparr>) = Ok s1"
    and t2: "tmpinputs s2 = tmpinputs s1" and h2: "l_hidden s2 = l_hidden s1"
    by (auto simp: assess_pass_def bind_Ok_iff)
  have st: "tmpinputs (s0\<lparr>tmpinputs := Some inputs, overallperf := 0, ncomparetrials := 0\<rparr>)
      = Some inputs" by simp
  from lesion_pass [OF loop st] obtain fed where f: "tmpinputs s1 = Some fed"
    and len: "length fed = length inputs" and n: "k + 1 \<le> length inputs"
    and el: "\<forall>t < length inputs. fed ! t =
             (if t < k + 1 \<and> lesion_rec ! t = 1 then lesioned w (inputs ! t) else inputs ! t)"
    and h: "l_hidden s1 = run_hidden m (lesion_normal src k) fed (k + 1)
         (l_hidden (s0\<lparr>tmpinputs := Some inputs, overallperf := 0, ncomparetrials := 0\<rparr>))"
    by blast
  from el have "\<forall>t < length inputs. fed ! t =
             (if t \<le> k \<and> lesion_rec ! t = 1 then lesioned w (inputs ! t) else inputs ! t)"
    by (simp add: less_Suc_eq_le)
  with mk f len n h t2 h2 show ?thesis by auto
qed

text \<open>
  A sequence of two compare trials, a filler trial and a compare trial, the inputs
  \<^verbatim>\<open>recurrent_lesion_test\<close> builds for it, and sources of pseudo-random values.
\<close>

definition handover_batch :: batch where
  "handover_batch =
     \<lparr>d_input = [[onehot8 2], [onehot8 3], [onehot8 7], [onehot8 1]],
      d_label = [NaN, Val 1, Val 7, Val 0],
      d_context = [[[1, 0]], [[1, 0]], [[1, 0]], [[1, 0]]],
      d_contextinput = [[[1, 0]], [[1, 0]], [[1, 0]], [[1, 0]]],
      d_trialtypeinput = [[[1]], [[1]], [[0]], [[1]]]\<rparr>"

definition handover_inputs :: "tensor list" where
  "handover_inputs =
     [[onehot8 2 @ [1, 0] @ [1]], [onehot8 3 @ [1, 0] @ [1]], [onehot8 7 @ [0, 0] @ [0]],
      [onehot8 1 @ [1, 0] @ [1]]]"

definition toy_lesion_sources :: lesion_sources where
  "toy_lesion_sources =
     \<lparr>lesion_uniform = (\<lambda>k i. 1 / 2), lesion_normal = (\<lambda>k i r c. 1),
      handover_normal = (\<lambda>i r c. 1)\<rparr>"

text \<open>
  C6. One iteration of \<^verbatim>\<open>for assess_idx in range(sequenceLength)\<close> of the lesion test.
  When the trial at \<open>assess_idx\<close> is a compare trial and is not the first trial, the
  network is stepped from the start state through inputs \<open>fed\<close> (the copy of the inputs
  that \<^verbatim>\<open>tmpinputs\<close> holds afterwards) such that, at every position \<open>t\<close> up to the
  assessment trial: when the lesion record of this iteration flags \<open>t\<close>, the stimulus part
  (for \<^verbatim>\<open>'number'\<close>) or the context part (otherwise) of the first row is all zeros and
  the rest of the input is the original one; when the record does not flag \<open>t\<close>, the
  input is the original one. Otherwise nothing is stepped and \<^verbatim>\<open>tmpinputs\<close> stays as it
  was. At \<^verbatim>\<open>assess_idx == sequenceLength-2\<close> the network is then stepped once more, through
  the inputs \<^verbatim>\<open>tmpinputs\<close> holds at that moment, lesioned as the last assessment left
  them, and the result is the state handed over to the next sequence.
\<close>

theorem lesion_pass_and_handover:
  assumes run: "assess_body a m whichLesion lesionFrequency src d inputs assess_idx s = Ok s'"
    and t: "t \<le> assess_idx"
    and shape: "inputs ! t \<noteq> []" "TOTALMAXNUM + NCONTEXTS \<le> length (inputs ! t ! 0)"
  shows "\<exists>cmp h. flag_is_one (d_trialtypeinput d ! assess_idx) = Ok cmp
       \<and> (if cmp \<and> 0 < assess_idx then
            \<exists>lesion_rec fed.
              mark_lesions lesionFrequency (lesion_uniform src assess_idx) d assess_idx
                = Ok lesion_rec
              \<and> tmpinputs s' = Some fed
              \<and> h = run_hidden m (lesion_normal src assess_idx) fed (assess_idx + 1)
                    (start_hidden a m (l_latentstate s))
              \<and> (if lesion_rec ! t = 1 then lesion_of whichLesion (inputs ! t) (fed ! t)
                  else fed ! t = inputs ! t)
          else tmpinputs s' = tmpinputs s \<and> h = start_hidden a m (l_latentstate s))
       \<and> (if int assess_idx = int (length (d_input d)) - 2 then
            \<exists>fed. tmpinputs s' = Some fed
              \<and> l_hidden s' = run_hidden m (handover_normal src) fed (assess_idx + 1) h
              \<and> l_latentstate s' = l_hidden s'
          else l_hidden s' = h)"
proof -
  define s0 where "s0 = s\<lparr>l_hidden := start_hidden a m (l_latentstate s),
                  l_aliased := retain_hidden_state a\<rparr>"
  from run obtain ctxd cmp s2 where
    flag: "flag_is_one (d_trialtypeinput d ! assess_idx) = Ok cmp"
    and pass: "(if cmp \<and> assess_idx > 0 then
             assess_pass m whichLesion lesionFrequency src d inputs assess_idx ctxd s0
           else Ok s0) = Ok s2"
    and hand: "handover_pass m src d assess_idx s2 = Ok s'"
    unfolding assess_body_def s0_def Let_def bind_Ok_iff getitem_Ok_iff by blast
  have s0: "tmpinputs s0 = tmpinputs s" "l_hidden s0 = start_hidden a m (l_latentstate s)"
    by (simp_all add: s0_def)
  note ho = handover_pass_fed [OF hand]
  have first: "if cmp \<and> 0 < assess_idx then
            \<exists>lesion_rec fed.
              mark_lesions lesionFrequency (lesion_uniform src assess_idx) d assess_idx
                = Ok lesion_rec
              \<and> tmpinputs s' = Some fed
              \<and> l_hidden s2 = run_hidden m (lesion_normal src assess_idx) fed (assess_idx + 1)
                    (start_hidden a m (l_latentstate s))
              \<and> (if lesion_rec ! t = 1 then lesion_of whichLesion (inputs ! t) (fed ! t)
                  else fed ! t = inputs ! t)
          else tmpinputs s' = tmpinputs s \<and> l_hidden s2 = start_hidden a m (l_latentstate s)"
  proof (cases "cmp \<and> 0 < assess_idx")
    case False
    with pass have "s2 = s0" by auto
    with ho s0 have "tmpinputs s' = tmpinputs s \<and> l_hidden s2 = start_hidden a m (l_latentstate s)"
      by simp
    then show ?thesis unfolding if_not_P [OF False] .
  next
    case True
    with pass have "assess_pass m whichLesion lesionFrequency src d inputs assess_idx ctxd s0
        = Ok s2" by simp
    from assess_pass_fed [OF this] obtain lesion_rec fed where
      mk: "mark_lesions lesionFrequency (lesion_uniform src assess_idx) d assess_idx
             = Ok lesion_rec"
      and f: "tmpinputs s2 = Some fed" and k: "assess_idx < length inputs"
      and el: "\<forall>j < length inputs. fed ! j =
             (if j \<le> assess_idx \<and> lesion_rec ! j = 1 then lesioned whichLesion (inputs ! j)
              else inputs ! j)"
      and h: "l_hidden s2 = run_hidden m (lesion_normal src assess_idx) fed (assess_idx + 1)
             (l_hidden s0)" by blast
    from el t k have ft: "fed ! t =
        (if lesion_rec ! t = 1 then lesioned whichLesion (inputs ! t) else inputs ! t)" by simp
    have "if lesion_rec ! t = 1 then lesion_of whichLesion (inputs ! t) (fed ! t)
          else fed ! t = inputs ! t"
      unfolding ft using lesioned_is_lesion [OF shape, of whichLesion] by simp
    moreover have "tmpinputs s' = Some fed" using ho f by simp
    moreover have "l_hidden s2 = run_hidden m (lesion_normal src assess_idx) fed (assess_idx + 1)
                    (start_hidden a m (l_latentstate s))" using h s0 by simp
    ultimately have "\<exists>lesion_rec fed.
              mark_lesions lesionFrequency (lesion_uniform src assess_idx) d assess_idx
                = Ok lesion_rec
              \<and> tmpinputs s' = Some fed
              \<and> l_hidden s2 = run_hidden m (lesion_normal src assess_idx) fed (assess_idx + 1)
                    (start_hidden a m (l_latentstate s))
              \<and> (if lesion_rec ! t = 1 then lesion_of whichLesion (inputs ! t) (fed ! t)
                  else fed ! t = inputs ! t)"
      using mk by blast
    then show ?thesis unfolding if_P [OF True] .
  qed
  have second: "if int assess_idx = int (length (d_input d)) - 2 then
            \<exists>fed. tmpinputs s' = Some fed
              \<and> l_hidden s' = run_hidden m (handover_normal src) fed (assess_idx + 1) (l_hidden s2)
              \<and> l_latentstate s' = l_hidden s'
          else l_hidden s' = l_hidden s2"
  proof (cases "int assess_idx = int (length (d_input d)) - 2")
    case True
    with ho have "\<exists>fed. tmpinputs s' = Some fed
              \<and> l_hidden s' = run_hidden m (handover_normal src) fed (assess_idx + 1) (l_hidden s2)
              \<and> l_latentstate s' = l_hidden s'" by auto
    then show ?thesis unfolding if_P [OF True] .
  next
    case False
    with ho have "l_hidden s' = l_hidden s2" by simp
    then show ?thesis unfolding if_not_P [OF False] .
  qed
  show ?thesis
  proof (intro exI [of _ cmp] exI [of _ "l_hidden s2"] conjI)
    show "flag_is_one (d_trialtypeinput d ! assess_idx) = Ok cmp" by (rule flag)
  qed (rule first, rule second)
qed

text \<open>
  In the sequence of two compare trials, a filler trial and a compare trial, the iteration
  \<open>assess_idx = 2\<close> makes the hand-over. Its trial is a filler trial, so its lesion record
  flags nothing; but the network is stepped through the inputs of the assessment before,
  where the stimulus of position 0 is zero, and hands over the state 6 where the inputs
  of the sequence give 7.
\<close>

theorem handover_feeds_lesioned_counterexample:
  "lesion_inputs handover_batch = Ok handover_inputs
   \<and> flag_is_one (d_trialtypeinput handover_batch ! 2) = Ok False
   \<and> int 2 = int (length (d_input handover_batch)) - 2
   \<and> (case for_each [0..<3]
             (assess_body (run_args False) toy_model ''number'' 1 toy_lesion_sources
                handover_batch handover_inputs)
             (lesion_init (run_args False) toy_model) of
         Ok s \<Rightarrow>
           l_latentstate s = [[6]]
           \<and> (case tmpinputs s of
                 Some fed \<Rightarrow>
                   stimulus_slice (fed ! 0 ! 0) = replicate TOTALMAXNUM 0
                   \<and> stimulus_slice (handover_inputs ! 0 ! 0) = onehot8 2
                   \<and> l_latentstate s = run_hidden toy_model (handover_normal toy_lesion_sources)
                        fed 3 (torch_zeros 1 1)
               | None \<Rightarrow> False)
       | _ \<Rightarrow> False)
   \<and> run_hidden toy_model (handover_normal toy_lesion_sources) handover_inputs 3
        (torch_zeros 1 1) = [[7]]"
  by code_simp

theorem lesion_pass_and_handover_witness:
  "(0::nat) \<le> 1 \<and> handover_inputs ! 0 \<noteq> []
   \<and> TOTALMAXNUM + NCONTEXTS \<le> length (handover_inputs ! 0 ! 0)
   \<and> flag_is_one (d_trialtypeinput handover_batch ! 1) = Ok True
   \<and> mark_lesions 1 (lesion_uniform toy_lesion_sources 1) handover_batch 1 = Ok [1, 0, 0, 0]
   \<and> (case assess_body (run_args False) toy_model ''number'' 1 toy_lesion_sources
             handover_batch handover_inputs 1 (lesion_init (run_args False) toy_model) of
         Ok s' \<Rightarrow>
           (case tmpinputs s' of
              Some fed \<Rightarrow> lesion_of ''number'' (handover_inputs ! 0) (fed ! 0)
                \<and> fed ! 1 = handover_inputs ! 1
            | None \<Rightarrow> False)
       | _ \<Rightarrow> False)"
proof -
  let ?run = "assess_body (run_args False) toy_model ''number'' 1 toy_lesion_sources
             handover_batch handover_inputs 1 (lesion_init (run_args False) toy_model)"
  have "case ?run of Ok s' \<Rightarrow> True | _ \<Rightarrow> False" by code_simp
  then obtain s' where run: "?run = Ok s'" by (cases ?run) simp_all
  have t: "(0::nat) \<le> 1" "(1::nat) \<le> 1" by simp_all
  have shape: "handover_inputs ! 0 \<noteq> []"
    "TOTALMAXNUM + NCONTEXTS \<le> length (handover_inputs ! 0 ! 0)"
    "handover_inputs ! 1 \<noteq> []"
    "TOTALMAXNUM + NCONTEXTS \<le> length (handover_inputs ! 1 ! 0)"
    by (simp_all add: handover_inputs_def onehot8_def TOTALMAXNUM_def NCONTEXTS_def)
  have flag: "flag_is_one (d_trialtypeinput handover_batch ! 1) = Ok True" by code_simp
  have mk: "mark_lesions 1 (lesion_uniform toy_lesion_sources 1) handover_batch 1
      = Ok [1, 0, 0, 0]" by code_simp
  from lesion_pass_and_handover [OF run t(1) shape(1,2)] flag mk
  obtain fed where f: "tmpinputs s' = Some fed"
    and l0: "lesion_of ''number'' (handover_inputs ! 0) (fed ! 0)"
    by (auto split: if_splits)
  from lesion_pass_and_handover [OF run t(2) shape(3,4)] flag mk f
  have "fed ! 1 = handover_inputs ! 1" by (auto split: if_splits)
  with f l0 shape flag mk show ?thesis unfolding run by simp
qed

section \<open>The context input of filler trials\<close>

lemma lesioned_keeps_zero_context:
  assumes "zero_context d i x"
  shows "zero_context d i (lesioned w x)"
proof -
  have keep: "context_slice (if w = ''number'' then zero_slice 0 TOTALMAXNUM row
             else zero_slice TOTALMAXNUM (TOTALMAXNUM + NCONTEXTS) row) = replicate NCONTEXTS 0"
    if z: "context_slice row = replicate NCONTEXTS 0" for row
  proof -
    from z have "length (context_slice row) = NCONTEXTS" by simp
    then have l: "TOTALMAXNUM + NCONTEXTS \<le> length row"
      by (simp add: context_slice_def NCONTEXTS_def min_def split: if_splits)
    from zero_slice_stimulus(2) [OF l] zero_slice_context(1) [OF l] z show ?thesis by simp
  qed
  from assms have len: "length x = length (d_input d ! i)"
    and el: "\<And>j. j < length x \<Longrightarrow> context_slice (x ! j) = replicate NCONTEXTS 0"
    by (simp_all add: zero_context_def list_all_length)
  have "context_slice (lesioned w x ! j) = replicate NCONTEXTS 0" if j: "j < length x" for j
  proof (cases j)
    case 0
    with j keep [OF el [OF j]] show ?thesis by (auto simp: lesioned_def split: if_splits)
  next
    case (Suc k)
    with j el [OF j] show ?thesis by (simp add: lesioned_def)
  qed
  with len show ?thesis by (simp add: zero_context_def list_all_length lesioned_def)
qed

text \<open>
  C5. At a position whose trial type flag is 0 (a filler trial), whatever the context
  inputs of the dataset are, the context part of the input given to the network is zero
  in every row: in the inputs \<^verbatim>\<open>recurrent_train\<close>, \<^verbatim>\<open>recurrent_test\<close> and
  \<^verbatim>\<open>get_activations\<close> build, in the inputs \<^verbatim>\<open>recurrent_lesion_test\<close> builds, and in the
  inputs a pass of the lesion test has lesioned.
\<close>

theorem filler_context_is_zero:
  assumes i: "i < length (d_input d)"
    and flag: "first_flag (d_trialtypeinput d ! i) = Ok 0"
    and shape: "shaped d i"
  shows "(\<forall>iv. train_inputs a u d = Ok iv \<longrightarrow> zero_context d i (recurrentinputs iv ! i))
       \<and> (\<forall>xs. test_inputs d = Ok xs \<longrightarrow> zero_context d i (xs ! i))
       \<and> (\<forall>xs. activation_inputs d = Ok xs \<longrightarrow> zero_context d i (xs ! i))
       \<and> (\<forall>xs. lesion_inputs d = Ok xs \<longrightarrow>
             zero_context d i (xs ! i)
             \<and> (\<forall>s s' fed. tmpinputs s = Some xs
                   \<and> for_each [0..<n] (lesion_step m whichLesion lesion_rec z d assess_idx) s = Ok s'
                   \<and> tmpinputs s' = Some fed \<longrightarrow> zero_context d i (fed ! i)))"
proof -
  have z: "zero_context d i (filler_input d i)"
    using filler_input_context [OF shape] by (simp add: zero_context_def)
  have "zero_context d i (fed ! i)"
    if l: "lesion_inputs d = Ok xs" and st: "tmpinputs s = Some xs"
      and run: "for_each [0..<n] (lesion_step m whichLesion lesion_rec z d assess_idx) s = Ok s'"
      and f: "tmpinputs s' = Some fed" for xs s s' fed
  proof -
    have len: "length xs = length (d_input d)"
      using appending_loop [where sel = "\<lambda>x. x" and body = "lesion_input_body d"
          and P = "\<lambda>i. first_flag (d_trialtypeinput d ! i) = Ok 0" and g = "filler_input d",
          OF l [unfolded lesion_inputs_def] refl lesion_input_body_step]
      by simp
    from lesion_pass [OF run st] f i len
    have "fed ! i = (if i < n \<and> lesion_rec ! i = 1 then lesioned whichLesion (xs ! i) else xs ! i)"
      by auto
    with lesion_inputs_filler [OF l i flag] z lesioned_keeps_zero_context [OF z, of whichLesion]
    show ?thesis by simp
  qed
  note pass = this
  show ?thesis
  proof (intro conjI allI impI)
    fix iv assume "train_inputs a u d = Ok iv"
    from train_inputs_filler [OF this i flag] z
    show "zero_context d i (recurrentinputs iv ! i)" by simp
  next
    fix xs assume "test_inputs d = Ok xs"
    from test_inputs_filler [OF this i flag] z show "zero_context d i (xs ! i)" by simp
  next
    fix xs assume "activation_inputs d = Ok xs"
    from activation_inputs_filler [OF this i flag] z show "zero_context d i (xs ! i)" by simp
  next
    fix xs assume "lesion_inputs d = Ok xs"
    from lesion_inputs_filler [OF this i flag] z show "zero_context d i (xs ! i)" by simp
  next
    fix xs s s' fed
    assume l: "lesion_inputs d = Ok xs"
      and p: "tmpinputs s = Some xs
          \<and> for_each [0..<n] (lesion_step m whichLesion lesion_rec z d assess_idx) s = Ok s'
          \<and> tmpinputs s' = Some fed"
    from p have "tmpinputs s = Some xs"
      "for_each [0..<n] (lesion_step m whichLesion lesion_rec z d assess_idx) s = Ok s'"
      "tmpinputs s' = Some fed" by simp_all
    from pass [OF l this] show "zero_context d i (fed ! i)" .
  qed
qed

theorem filler_context_is_zero_witness:
  "1 < length (d_input toy_batch) \<and> first_flag (d_trialtypeinput toy_batch ! 1) = Ok 0
   \<and> shaped toy_batch 1
   \<and> (case train_inputs (run_args False) (\<lambda>i. 1 / 2) toy_batch of
         Ok iv \<Rightarrow> zero_context toy_batch 1 (recurrentinputs iv ! 1) | _ \<Rightarrow> False)
   \<and> (case test_inputs toy_batch of
         Ok xs \<Rightarrow> zero_context toy_batch 1 (xs ! 1) | _ \<Rightarrow> False)
   \<and> (case activation_inputs toy_batch of
         Ok xs \<Rightarrow> zero_context toy_batch 1 (xs ! 1) | _ \<Rightarrow> False)
   \<and> (case lesion_inputs toy_batch of
         Ok xs \<Rightarrow> zero_context toy_batch 1 (xs ! 1) | _ \<Rightarrow> False)"
proof -
  have h: "1 < length (d_input toy_batch)" "first_flag (d_trialtypeinput toy_batch ! 1) = Ok 0"
    "shaped toy_batch 1"
    by (simp_all add: toy_batch_def first_flag_def getitem_def shaped_def onehot8_def
        TOTALMAXNUM_def NCONTEXTS_def)
  have "case train_inputs (run_args False) (\<lambda>i. 1 / 2) toy_batch of Ok iv \<Rightarrow> True | _ \<Rightarrow> False"
    by code_simp
  then obtain iv where tr: "train_inputs (run_args False) (\<lambda>i. 1 / 2) toy_batch = Ok iv"
    by (cases "train_inputs (run_args False) (\<lambda>i. 1 / 2) toy_batch") simp_all
  have "case test_inputs toy_batch of Ok xs \<Rightarrow> True | _ \<Rightarrow> False" by code_simp
  then obtain xs where te: "test_inputs toy_batch = Ok xs"
    by (cases "test_inputs toy_batch") simp_all
  have "case activation_inputs toy_batch of Ok xs \<Rightarrow> True | _ \<Rightarrow> False" by code_simp
  then obtain ys where ac: "activation_inputs toy_batch = Ok ys"
    by (cases "activation_inputs toy_batch") simp_all
  have "case lesion_inputs toy_batch of Ok xs \<Rightarrow> True | _ \<Rightarrow> False" by code_simp
  then obtain zs where le: "lesion_inputs toy_batch = Ok zs"
    by (cases "lesion_inputs toy_batch") simp_all
  from filler_context_is_zero [OF h, of "run_args False" "\<lambda>i. 1 / 2"] tr te ac le
  have "zero_context toy_batch 1 (recurrentinputs iv ! 1)" "zero_context toy_batch 1 (xs ! 1)"
    "zero_context toy_batch 1 (ys ! 1)" "zero_context toy_batch 1 (zs ! 1)"
    by blast+
  with h show ?thesis unfolding tr te ac le by simp
qed

section \<open>The steps of a sequence in training and testing\<close>

text \<open>
  \<open>run_output m z xs k h\<close> is the output of the network at position \<open>k\<close> when it is stepped
  through the inputs \<open>xs\<close> from the hidden state \<open>h\<close>. A position qualifies when its label
  is not NaN and its trial type flag is 1; \<open>scored d n\<close> lists the qualifying positions
  below \<open>n\<close>, \<open>score\<close> is the number \<^verbatim>\<open>answer_correct\<close> returns, and \<open>scored_answers\<close> and
  \<open>scored_losses\<close> list the scores and the losses of the outputs at those positions.
  \<open>no_update\<close> is an optimizer that leaves the network as it is.
\<close>

definition run_output :: "model \<Rightarrow> (nat \<Rightarrow> nat \<Rightarrow> nat \<Rightarrow> real) \<Rightarrow> tensor list \<Rightarrow> nat \<Rightarrow> tensor \<Rightarrow> tensor" where
  "run_output m z xs k h =
     (let h' = run_hidden m z xs k h
      in fst (forward m (xs ! k) (tensor_add h' (noise_tensor m (z k) h'))))"

definition qualifying :: "batch \<Rightarrow> nat \<Rightarrow> bool" where
  "qualifying d i \<longleftrightarrow> d_label d ! i \<noteq> NaN \<and> first_flag (d_trialtypeinput d ! i) = Ok 1"

definition scored :: "batch \<Rightarrow> nat \<Rightarrow> nat list" where
  "scored d n = filter (qualifying d) [0..<n]"

definition score :: "tensor \<Rightarrow> label \<Rightarrow> nat" where
  "score output l = (case answer_correct output l of Ok n \<Rightarrow> n | _ \<Rightarrow> 0)"

definition scored_answers ::
  "model \<Rightarrow> (nat \<Rightarrow> nat \<Rightarrow> nat \<Rightarrow> real) \<Rightarrow> tensor list \<Rightarrow> tensor \<Rightarrow> batch \<Rightarrow> nat \<Rightarrow> nat list" where
  "scored_answers m z xs h0 d n =
     map (\<lambda>i. score (run_output m z xs i h0) (d_label d ! i)) (scored d n)"

definition scored_losses ::
  "(tensor \<Rightarrow> label \<Rightarrow> real) \<Rightarrow> model \<Rightarrow> (nat \<Rightarrow> nat \<Rightarrow> nat \<Rightarrow> real) \<Rightarrow> tensor list \<Rightarrow> tensor \<Rightarrow> batch
     \<Rightarrow> nat \<Rightarrow> real list" where
  "scored_losses criterion m z xs h0 d n =
     map (\<lambda>i. criterion (run_output m z xs i h0) (d_label d ! i)) (scored d n)"

definition no_update :: "model \<Rightarrow> batch \<Rightarrow> tensor list \<Rightarrow> tensor \<Rightarrow> model" where
  "no_update m d xs h = m"

lemma scored_Suc: "scored d (Suc n) = scored d n @ (if qualifying d n then [n] else [])"
  by (simp add: scored_def)

lemma scored_0: "scored d 0 = []"
  by (simp add: scored_def)

lemma train_step_scored:
  assumes "train_step criterion z d inputs k s = Ok s'" and "qualifying d k"
  shows "net s' = net s \<and> train_loss s' = train_loss s
       \<and> hidden s' = snd (forward (net s) (inputs ! k)
            (tensor_add (hidden s) (noise_tensor (net s) (z k) (hidden s))))
       \<and> latentstate s' = (if int k = int (length (d_input d)) - 2 then hidden s' else latentstate s)
       \<and> trials_counter s' = trials_counter s + 1
       \<and> correct s' = correct s + score (fst (forward (net s) (inputs ! k)
                 (tensor_add (hidden s) (noise_tensor (net s) (z k) (hidden s))))) (d_label d ! k)
       \<and> loss s' = Some ((case loss s of None \<Rightarrow> 0 | Some v \<Rightarrow> v)
                 + criterion (fst (forward (net s) (inputs ! k)
                 (tensor_add (hidden s) (noise_tensor (net s) (z k) (hidden s))))) (d_label d ! k))"
  using assms
  by (auto simp: train_step_def Let_def case_prod_beta bind_Ok_iff noise_like_Ok_iff
      getitem_Ok_iff qualifying_def score_def)

lemma train_step_unscored:
  assumes "train_step criterion z d inputs k s = Ok s'" and "\<not> qualifying d k"
  shows "net s' = net s \<and> train_loss s' = train_loss s
       \<and> hidden s' = snd (forward (net s) (inputs ! k)
            (tensor_add (hidden s) (noise_tensor (net s) (z k) (hidden s))))
       \<and> latentstate s' = (if int k = int (length (d_input d)) - 2 then hidden s' else latentstate s)
       \<and> trials_counter s' = trials_counter s \<and> correct s' = correct s \<and> loss s' = loss s"
  using assms
  by (auto simp: train_step_def Let_def case_prod_beta bind_Ok_iff noise_like_Ok_iff
      getitem_Ok_iff qualifying_def split: if_splits)

lemma scored_answers_Suc:
  "scored_answers m z xs h0 d (Suc n) = scored_answers m z xs h0 d n @
     (if qualifying d n then [score (run_output m z xs n h0) (d_label d ! n)] else [])"
  by (simp add: scored_answers_def scored_Suc)

lemma scored_losses_Suc:
  "scored_losses criterion m z xs h0 d (Suc n) = scored_losses criterion m z xs h0 d n @
     (if qualifying d n then [criterion (run_output m z xs n h0) (d_label d ! n)] else [])"
  by (simp add: scored_losses_def scored_Suc)

lemma scored_losses_Nil: "scored_losses criterion m z xs h0 d n = [] \<longleftrightarrow> scored d n = []"
  by (simp add: scored_losses_def)

lemma snapshot_index:
  "k < L \<Longrightarrow> int k = int L - 2 \<longleftrightarrow> 2 \<le> L \<and> Suc k = L - 1"
  by auto

lemma train_loop:
  assumes run: "for_each [0..<length (d_input d)] (train_step criterion z d xs) s = Ok s'"
  shows "net s' = net s \<and> train_loss s' = train_loss s
       \<and> hidden s' = run_hidden (net s) z xs (length (d_input d)) (hidden s)
       \<and> latentstate s' = (if 2 \<le> length (d_input d)
            then run_hidden (net s) z xs (length (d_input d) - 1) (hidden s) else latentstate s)
       \<and> trials_counter s' = trials_counter s + length (scored d (length (d_input d)))
       \<and> correct s' = correct s
            + sum_list (scored_answers (net s) z xs (hidden s) d (length (d_input d)))
       \<and> loss s' = (if scored d (length (d_input d)) = [] then loss s
            else Some ((case loss s of None \<Rightarrow> 0 | Some v \<Rightarrow> v)
              + sum_list (scored_losses criterion (net s) z xs (hidden s) d (length (d_input d)))))"
proof -
  let ?L = "length (d_input d)" and ?m = "net s" and ?h0 = "hidden s"
  let ?I = "\<lambda>k t. net t = ?m \<and> train_loss t = train_loss s
       \<and> hidden t = run_hidden ?m z xs k ?h0
       \<and> latentstate t = (if 2 \<le> ?L \<and> ?L - 1 \<le> k
            then run_hidden ?m z xs (?L - 1) ?h0 else latentstate s)
       \<and> trials_counter t = trials_counter s + length (scored d k)
       \<and> correct t = correct s + sum_list (scored_answers ?m z xs ?h0 d k)
       \<and> loss t = (if scored d k = [] then loss s
            else Some ((case loss s of None \<Rightarrow> 0 | Some v \<Rightarrow> v)
              + sum_list (scored_losses criterion ?m z xs ?h0 d k)))"
  have "?I ?L s'"
  proof (rule for_each_upt_inv [OF run, where I = ?I])
    show "?I 0 s" by (auto simp: scored_0 scored_answers_def scored_losses_def)
  next
    fix k t t'
    assume k: "k < ?L" and I: "?I k t" and b: "train_step criterion z d xs k t = Ok t'"
    from I have n: "net t = ?m" and h: "hidden t = run_hidden ?m z xs k ?h0" by simp_all
    have out: "fst (forward (net t) (xs ! k)
            (tensor_add (hidden t) (noise_tensor (net t) (z k) (hidden t))))
          = run_output ?m z xs k ?h0"
      and hid: "snd (forward (net t) (xs ! k)
            (tensor_add (hidden t) (noise_tensor (net t) (z k) (hidden t))))
          = run_hidden ?m z xs (Suc k) ?h0"
      unfolding n h by (simp_all add: run_output_def Let_def)
    have lat: "(if int k = int ?L - 2 then run_hidden ?m z xs (Suc k) ?h0 else latentstate t)
        = (if 2 \<le> ?L \<and> ?L - 1 \<le> Suc k
            then run_hidden ?m z xs (?L - 1) ?h0 else latentstate s)"
      using I k unfolding snapshot_index [OF k] by auto
    have step: "net t' = net t \<and> train_loss t' = train_loss t
       \<and> hidden t' = run_hidden ?m z xs (Suc k) ?h0
       \<and> latentstate t' = (if int k = int ?L - 2 then run_hidden ?m z xs (Suc k) ?h0
            else latentstate t)
       \<and> (if qualifying d k then
            trials_counter t' = trials_counter t + 1
            \<and> correct t' = correct t + score (run_output ?m z xs k ?h0) (d_label d ! k)
            \<and> loss t' = Some ((case loss t of None \<Rightarrow> 0 | Some v \<Rightarrow> v)
                 + criterion (run_output ?m z xs k ?h0) (d_label d ! k))
          else trials_counter t' = trials_counter t \<and> correct t' = correct t \<and> loss t' = loss t)"
    proof (cases "qualifying d k")
      case True
      from train_step_scored [OF b True] True show ?thesis unfolding out hid by simp
    next
      case False
      from train_step_unscored [OF b False] False show ?thesis unfolding hid by simp
    qed
    have 1: "net t' = ?m" "train_loss t' = train_loss s" using step I by simp_all
    have 2: "hidden t' = run_hidden ?m z xs (Suc k) ?h0" using step by blast
    have 3: "latentstate t' = (if 2 \<le> ?L \<and> ?L - 1 \<le> Suc k
            then run_hidden ?m z xs (?L - 1) ?h0 else latentstate s)"
      using step lat by presburger
    have 4: "trials_counter t' = trials_counter s + length (scored d (Suc k))"
      using step I by (simp add: scored_Suc split: if_splits)
    have 5: "correct t' = correct s + sum_list (scored_answers ?m z xs ?h0 d (Suc k))"
      using step I by (simp add: scored_answers_Suc split: if_splits)
    have lt: "loss t = (if scored d k = [] then loss s
            else Some ((case loss s of None \<Rightarrow> 0 | Some v \<Rightarrow> v)
              + sum_list (scored_losses criterion ?m z xs ?h0 d k)))" using I by blast
    have 6: "loss t' = (if scored d (Suc k) = [] then loss s
            else Some ((case loss s of None \<Rightarrow> 0 | Some v \<Rightarrow> v)
              + sum_list (scored_losses criterion ?m z xs ?h0 d (Suc k))))"
    proof (cases "qualifying d k")
      case True
      with step have "loss t' = Some ((case loss t of None \<Rightarrow> 0 | Some v \<Rightarrow> v)
                 + criterion (run_output ?m z xs k ?h0) (d_label d ! k))" by simp
      with True show ?thesis unfolding lt
        by (cases "scored d k = []")
          (simp_all add: scored_Suc scored_losses_Suc scored_losses_def [of _ _ _ _ _ _ k])
    next
      case False
      with step have "loss t' = loss t" by simp
      with False show ?thesis unfolding lt by (simp add: scored_Suc scored_losses_Suc)
    qed
    from 1 2 3 4 5 6 show "?I (Suc k) t'" by blast
  qed
  then show ?thesis by simp
qed


lemma train_batch_fields:
  assumes inputs: "train_inputs a (uniform src b) d = Ok iv"
    and run: "train_batch a criterion optimizer_step src (b, d) s = Ok s'"
  shows "scored d (length (d_input d)) \<noteq> []
       \<and> trials_counter s' = trials_counter s + length (scored d (length (d_input d)))
       \<and> correct s' = correct s + sum_list (scored_answers (net s) (normal src b)
            (recurrentinputs iv) (start_hidden a (net s) (latentstate s)) d (length (d_input d)))
       \<and> train_loss s' = train_loss s + sum_list (scored_losses criterion (net s) (normal src b)
            (recurrentinputs iv) (start_hidden a (net s) (latentstate s)) d (length (d_input d)))
       \<and> hidden s' = run_hidden (net s) (normal src b) (recurrentinputs iv) (length (d_input d))
            (start_hidden a (net s) (latentstate s))
       \<and> latentstate s' = (if 2 \<le> length (d_input d)
            then run_hidden (net s) (normal src b) (recurrentinputs iv) (length (d_input d) - 1)
              (start_hidden a (net s) (latentstate s))
            else latentstate s)"
proof -
  let ?h0 = "start_hidden a (net s) (latentstate s)"
  let ?s0 = "s\<lparr>hidden := ?h0, loss := None\<rparr>"
  from run inputs obtain s1 v where
    loop: "for_each [0..<length (d_input d)]
              (train_step criterion (normal src b) d (recurrentinputs iv)) ?s0 = Ok s1"
    and l: "loss s1 = Some v"
    and s': "s' = s1\<lparr>net := optimizer_step (net s1) d (recurrentinputs iv) ?h0,
                 train_loss := train_loss s1 + v\<rparr>"
    by (auto simp: train_batch_def Let_def bind_Ok_iff split: option.splits)
  from train_loop [OF loop] l show ?thesis unfolding s'
    by (auto split: if_splits)
qed

lemma test_step_scored:
  assumes "test_step m criterion z d inputs k s = Ok s'" and "qualifying d k"
  shows "hidden s' = snd (forward m (inputs ! k)
            (tensor_add (hidden s) (noise_tensor m (z k) (hidden s))))
       \<and> aliased s' = (int k = int (length (d_input d)) - 2)
       \<and> latentstate s' = (if int k = int (length (d_input d)) - 2 then hidden s'
            else if aliased s then tensor_add (hidden s) (noise_tensor m (z k) (hidden s))
            else latentstate s)
       \<and> trials_counter s' = trials_counter s + 1
       \<and> correct s' = correct s + score (fst (forward m (inputs ! k)
                 (tensor_add (hidden s) (noise_tensor m (z k) (hidden s))))) (d_label d ! k)
       \<and> test_loss s' = test_loss s + criterion (fst (forward m (inputs ! k)
                 (tensor_add (hidden s) (noise_tensor m (z k) (hidden s))))) (d_label d ! k)"
  using assms
  by (auto simp: test_step_def Let_def case_prod_beta bind_Ok_iff noise_like_Ok_iff
      getitem_Ok_iff qualifying_def score_def)

lemma test_step_unscored:
  assumes "test_step m criterion z d inputs k s = Ok s'" and "\<not> qualifying d k"
  shows "hidden s' = snd (forward m (inputs ! k)
            (tensor_add (hidden s) (noise_tensor m (z k) (hidden s))))
       \<and> aliased s' = (int k = int (length (d_input d)) - 2)
       \<and> latentstate s' = (if int k = int (length (d_input d)) - 2 then hidden s'
            else if aliased s then tensor_add (hidden s) (noise_tensor m (z k) (hidden s))
            else latentstate s)
       \<and> trials_counter s' = trials_counter s \<and> correct s' = correct s
       \<and> test_loss s' = test_loss s"
  using assms
  by (auto simp: test_step_def Let_def case_prod_beta bind_Ok_iff noise_like_Ok_iff
      getitem_Ok_iff qualifying_def split: if_splits)


lemma zero_noise:
  assumes "hidden_noise m = 0"
  shows "tensor_add h (noise_tensor m z h) = h"
proof -
  have row: "map2 (+) r (map (\<lambda>c. 0) [0..<length r]) = r" for r :: "real list"
    by (intro nth_equalityI) simp_all
  show ?thesis
    unfolding tensor_add_def noise_tensor_def
    by (intro nth_equalityI) (simp_all add: assms row)
qed

lemma test_step_fields:
  assumes b: "test_step m criterion z d xs k t = Ok t'"
  shows "hidden t' = snd (forward m (xs ! k)
            (tensor_add (hidden t) (noise_tensor m (z k) (hidden t))))
       \<and> aliased t' = (int k = int (length (d_input d)) - 2)
       \<and> latentstate t' = (if int k = int (length (d_input d)) - 2 then hidden t'
            else if aliased t then tensor_add (hidden t) (noise_tensor m (z k) (hidden t))
            else latentstate t)
       \<and> (if qualifying d k then
            trials_counter t' = trials_counter t + 1
            \<and> correct t' = correct t + score (fst (forward m (xs ! k)
                 (tensor_add (hidden t) (noise_tensor m (z k) (hidden t))))) (d_label d ! k)
            \<and> test_loss t' = test_loss t + criterion (fst (forward m (xs ! k)
                 (tensor_add (hidden t) (noise_tensor m (z k) (hidden t))))) (d_label d ! k)
          else trials_counter t' = trials_counter t \<and> correct t' = correct t
            \<and> test_loss t' = test_loss t)"
proof (cases "qualifying d k")
  case True
  from test_step_scored [OF b True] True show ?thesis by simp
next
  case False
  from test_step_unscored [OF b False] False show ?thesis by simp
qed

lemma test_loop:
  assumes run: "for_each [0..<length (d_input d)] (test_step m criterion z d xs) s = Ok s'"
  shows "hidden s' = run_hidden m z xs (length (d_input d)) (hidden s)
       \<and> trials_counter s' = trials_counter s + length (scored d (length (d_input d)))
       \<and> correct s' = correct s
            + sum_list (scored_answers m z xs (hidden s) d (length (d_input d)))
       \<and> test_loss s' = test_loss s
            + sum_list (scored_losses criterion m z xs (hidden s) d (length (d_input d)))"
proof -
  let ?L = "length (d_input d)" and ?h0 = "hidden s"
  let ?I = "\<lambda>k t. hidden t = run_hidden m z xs k ?h0
       \<and> trials_counter t = trials_counter s + length (scored d k)
       \<and> correct t = correct s + sum_list (scored_answers m z xs ?h0 d k)
       \<and> test_loss t = test_loss s + sum_list (scored_losses criterion m z xs ?h0 d k)"
  have "?I ?L s'"
  proof (rule for_each_upt_inv [OF run, where I = ?I])
    show "?I 0 s" by (simp add: scored_0 scored_answers_def scored_losses_def)
  next
    fix k t t'
    assume k: "k < ?L" and I: "?I k t" and b: "test_step m criterion z d xs k t = Ok t'"
    from I have h: "hidden t = run_hidden m z xs k ?h0" by simp
    have out: "fst (forward m (xs ! k) (tensor_add (hidden t) (noise_tensor m (z k) (hidden t))))
          = run_output m z xs k ?h0"
      and hid: "snd (forward m (xs ! k) (tensor_add (hidden t) (noise_tensor m (z k) (hidden t))))
          = run_hidden m z xs (Suc k) ?h0"
      unfolding h by (simp_all add: run_output_def Let_def)
    note step = test_step_fields [OF b, unfolded out hid]
    have 2: "hidden t' = run_hidden m z xs (Suc k) ?h0" using step by blast
    have 4: "trials_counter t' = trials_counter s + length (scored d (Suc k))"
      using step I by (simp add: scored_Suc split: if_splits)
    have 5: "correct t' = correct s + sum_list (scored_answers m z xs ?h0 d (Suc k))"
      using step I by (simp add: scored_answers_Suc split: if_splits)
    have 6: "test_loss t' = test_loss s + sum_list (scored_losses criterion m z xs ?h0 d (Suc k))"
      using step I by (simp add: scored_losses_Suc split: if_splits)
    from 2 4 5 6 show "?I (Suc k) t'" by blast
  qed
  then show ?thesis by simp
qed

lemma test_loop_latent:
  assumes run: "for_each [0..<length (d_input d)] (test_step m criterion z d xs) s = Ok s'"
    and zero: "hidden_noise m = 0"
    and start: "aliased s \<longrightarrow> latentstate s = hidden s"
  shows "latentstate s' = (if 2 \<le> length (d_input d)
            then run_hidden m z xs (length (d_input d) - 1) (hidden s) else latentstate s)"
proof -
  let ?L = "length (d_input d)" and ?h0 = "hidden s"
  let ?I = "\<lambda>k t. hidden t = run_hidden m z xs k ?h0
       \<and> (aliased t \<longrightarrow> latentstate t = hidden t)
       \<and> latentstate t = (if 2 \<le> ?L \<and> ?L - 1 \<le> k
            then run_hidden m z xs (?L - 1) ?h0 else latentstate s)"
  have "?I ?L s'"
  proof (rule for_each_upt_inv [OF run, where I = ?I])
    show "?I 0 s" using start by auto
  next
    fix k t t'
    assume k: "k < ?L" and I: "?I k t" and b: "test_step m criterion z d xs k t = Ok t'"
    from I have h: "hidden t = run_hidden m z xs k ?h0" by simp
    have hid: "snd (forward m (xs ! k) (tensor_add (hidden t) (noise_tensor m (z k) (hidden t))))
          = run_hidden m z xs (Suc k) ?h0"
      unfolding h by (simp add: Let_def)
    note step = test_step_fields [OF b, unfolded hid]
    have 2: "hidden t' = run_hidden m z xs (Suc k) ?h0" using step by blast
    have al: "aliased t' = (int k = int ?L - 2)" using step by blast
    have "latentstate t' = (if int k = int ?L - 2 then hidden t'
            else if aliased t then tensor_add (hidden t) (noise_tensor m (z k) (hidden t))
            else latentstate t)" using step by blast
    then have la: "latentstate t' = (if int k = int ?L - 2 then hidden t'
            else if aliased t then hidden t else latentstate t)"
      unfolding zero_noise [OF zero] .
    have "(if aliased t then hidden t else latentstate t) = latentstate t"
    proof (cases "aliased t")
      case True
      with I have "latentstate t = hidden t" by blast
      with True show ?thesis by simp
    next
      case False
      then show ?thesis by simp
    qed
    with la have la': "latentstate t' = (if int k = int ?L - 2 then hidden t' else latentstate t)"
      by simp
    have 3: "aliased t' \<longrightarrow> latentstate t' = hidden t'" using al la' by simp
    have lat: "(if int k = int ?L - 2 then run_hidden m z xs (Suc k) ?h0 else latentstate t)
        = (if 2 \<le> ?L \<and> ?L - 1 \<le> Suc k
            then run_hidden m z xs (?L - 1) ?h0 else latentstate s)"
      using I k unfolding snapshot_index [OF k] by auto
    have 4: "latentstate t' = (if 2 \<le> ?L \<and> ?L - 1 \<le> Suc k
            then run_hidden m z xs (?L - 1) ?h0 else latentstate s)"
      using la' 2 lat by presburger
    from 2 3 4 show "?I (Suc k) t'" by blast
  qed
  then show ?thesis by simp
qed


lemma test_batch_loop:
  assumes inputs: "test_inputs d = Ok xs"
    and run: "test_batch a m criterion src (b, d) s = Ok s'"
  shows "for_each [0..<length (d_input d)] (test_step m criterion (normal src b) d xs)
           (s\<lparr>hidden := start_hidden a m (latentstate s), aliased := retain_hidden_state a,
              ref_Value := None\<rparr>) = Ok s'"
  using run inputs by (simp add: test_batch_def Let_def)

lemma test_batch_fields:
  assumes inputs: "test_inputs d = Ok xs"
    and run: "test_batch a m criterion src (b, d) s = Ok s'"
  shows "hidden s' = run_hidden m (normal src b) xs (length (d_input d))
            (start_hidden a m (latentstate s))
       \<and> trials_counter s' = trials_counter s + length (scored d (length (d_input d)))
       \<and> correct s' = correct s + sum_list (scored_answers m (normal src b) xs
            (start_hidden a m (latentstate s)) d (length (d_input d)))
       \<and> test_loss s' = test_loss s + sum_list (scored_losses criterion m (normal src b) xs
            (start_hidden a m (latentstate s)) d (length (d_input d)))"
  using test_loop [OF test_batch_loop [OF inputs run]] by simp

lemma test_batch_latent:
  assumes inputs: "test_inputs d = Ok xs"
    and run: "test_batch a m criterion src (b, d) s = Ok s'"
    and zero: "hidden_noise m = 0"
  shows "latentstate s' = (if 2 \<le> length (d_input d)
            then run_hidden m (normal src b) xs (length (d_input d) - 1)
              (start_hidden a m (latentstate s))
            else latentstate s)"
proof -
  let ?s0 = "s\<lparr>hidden := start_hidden a m (latentstate s), aliased := retain_hidden_state a,
              ref_Value := None\<rparr>"
  have "aliased ?s0 \<longrightarrow> latentstate ?s0 = hidden ?s0" by (simp add: start_hidden_def)
  from test_loop_latent [OF test_batch_loop [OF inputs run] zero this] show ?thesis by simp
qed

lemma squeeze_rows:
  "for_each (map (\<lambda>v. [v]) vs) (\<lambda>row out. bind (squeeze_row row) (\<lambda>v. Ok (out @ [v]))) acc
     = Ok (acc @ vs)"
  by (induction vs arbitrary: acc) (simp_all add: squeeze_row_def)

lemma answer_correct_rule:
  "answer_correct (map (\<lambda>v. [v]) vs) l =
     Ok (length (filter (\<lambda>v. eq_label (if v > 1 / 2 then 1 else 0) l) vs))"
  by (simp add: answer_correct_def squeeze_rows Let_def filter_map o_def)

text \<open>
  C4. In one sequence of \<^verbatim>\<open>recurrent_train\<close> and of \<^verbatim>\<open>recurrent_test\<close> the network is
  stepped through every position of the sequence (the hidden state at the end is the one
  reached through all the inputs), while the counter of trials, the counter of correct
  answers and the accumulated loss grow by the contributions of exactly the positions
  whose label is not NaN and whose trial type is compare, in their order. The number a
  position adds to the correct answers is what \<^verbatim>\<open>answer_correct\<close> returns: the number of
  outputs whose prediction, 1 when the output exceeds 0.5 and 0 otherwise, equals the
  label.
\<close>

theorem scored_positions_accrue:
  "(\<forall>iv s'. train_inputs a (uniform src b) d = Ok iv
        \<and> train_batch a criterion optimizer_step src (b, d) s = Ok s' \<longrightarrow>
        hidden s' = run_hidden (net s) (normal src b) (recurrentinputs iv) (length (d_input d))
            (start_hidden a (net s) (latentstate s))
        \<and> trials_counter s' = trials_counter s + length (scored d (length (d_input d)))
        \<and> correct s' = correct s + sum_list (scored_answers (net s) (normal src b)
            (recurrentinputs iv) (start_hidden a (net s) (latentstate s)) d (length (d_input d)))
        \<and> train_loss s' = train_loss s + sum_list (scored_losses criterion (net s) (normal src b)
            (recurrentinputs iv) (start_hidden a (net s) (latentstate s)) d (length (d_input d))))
   \<and> (\<forall>xs t'. test_inputs d = Ok xs \<and> test_batch a m criterion src (b, d) t = Ok t' \<longrightarrow>
        hidden t' = run_hidden m (normal src b) xs (length (d_input d))
            (start_hidden a m (latentstate t))
        \<and> trials_counter t' = trials_counter t + length (scored d (length (d_input d)))
        \<and> correct t' = correct t + sum_list (scored_answers m (normal src b) xs
            (start_hidden a m (latentstate t)) d (length (d_input d)))
        \<and> test_loss t' = test_loss t + sum_list (scored_losses criterion m (normal src b) xs
            (start_hidden a m (latentstate t)) d (length (d_input d))))
   \<and> answer_correct (map (\<lambda>v. [v]) vs) l =
        Ok (length (filter (\<lambda>v. eq_label (if v > 1 / 2 then 1 else 0) l) vs))"
proof (intro conjI allI impI)
  fix iv s'
  assume "train_inputs a (uniform src b) d = Ok iv
        \<and> train_batch a criterion optimizer_step src (b, d) s = Ok s'"
  then have i: "train_inputs a (uniform src b) d = Ok iv"
    and r: "train_batch a criterion optimizer_step src (b, d) s = Ok s'" by simp_all
  note f = train_batch_fields [OF i r]
  show "hidden s' = run_hidden (net s) (normal src b) (recurrentinputs iv) (length (d_input d))
            (start_hidden a (net s) (latentstate s))" using f by blast
  show "trials_counter s' = trials_counter s + length (scored d (length (d_input d)))"
    using f by blast
  show "correct s' = correct s + sum_list (scored_answers (net s) (normal src b)
            (recurrentinputs iv) (start_hidden a (net s) (latentstate s)) d (length (d_input d)))"
    using f by blast
  show "train_loss s' = train_loss s + sum_list (scored_losses criterion (net s) (normal src b)
            (recurrentinputs iv) (start_hidden a (net s) (latentstate s)) d (length (d_input d)))"
    using f by blast
next
  fix xs t'
  assume "test_inputs d = Ok xs \<and> test_batch a m criterion src (b, d) t = Ok t'"
  then have i: "test_inputs d = Ok xs"
    and r: "test_batch a m criterion src (b, d) t = Ok t'" by simp_all
  note f = test_batch_fields [OF i r]
  show "hidden t' = run_hidden m (normal src b) xs (length (d_input d))
            (start_hidden a m (latentstate t))" using f by blast
  show "trials_counter t' = trials_counter t + length (scored d (length (d_input d)))"
    using f by blast
  show "correct t' = correct t + sum_list (scored_answers m (normal src b) xs
            (start_hidden a m (latentstate t)) d (length (d_input d)))" using f by blast
  show "test_loss t' = test_loss t + sum_list (scored_losses criterion m (normal src b) xs
            (start_hidden a m (latentstate t)) d (length (d_input d)))" using f by blast
next
  show "answer_correct (map (\<lambda>v. [v]) vs) l =
        Ok (length (filter (\<lambda>v. eq_label (if v > 1 / 2 then 1 else 0) l) vs))"
    by (rule answer_correct_rule)
qed

lemma toy_runs:
  "case train_inputs (run_args False) (uniform toy_sources 0) toy_batch of
     Ok iv \<Rightarrow>
       (case train_batch (run_args False) toy_criterion no_update toy_sources (0, toy_batch)
               (train_init (run_args False) toy_model) of
          Ok s' \<Rightarrow> latentstate s' = [[4]] \<and> hidden s' = [[7]] \<and> trials_counter s' = 1
        | _ \<Rightarrow> False)
   | _ \<Rightarrow> False"
  "case test_inputs toy_batch of
     Ok xs \<Rightarrow>
       (case test_batch (run_args False) toy_model toy_criterion toy_sources (0, toy_batch)
               (test_init (run_args False) toy_model) of
          Ok t' \<Rightarrow> latentstate t' = [[4]] \<and> hidden t' = [[7]] \<and> trials_counter t' = 1
        | _ \<Rightarrow> False)
   | _ \<Rightarrow> False"
  "scored toy_batch 3 = [2]"
  by code_simp+

lemma toy_starts:
  "net (train_init (run_args False) toy_model) = toy_model"
  "start_hidden (run_args False) toy_model (latentstate (train_init (run_args False) toy_model))
     = torch_zeros 1 1"
  "start_hidden (run_args False) toy_model (latentstate (test_init (run_args False) toy_model))
     = torch_zeros 1 1"
  "trials_counter (train_init (run_args False) toy_model) = 0"
  "trials_counter (test_init (run_args False) toy_model) = 0"
  "length (d_input toy_batch) = 3"
  by (simp_all add: train_init_def test_init_def start_hidden_def run_args_def toy_model_def
      toy_batch_def)

theorem scored_positions_accrue_witness:
  "(case train_inputs (run_args False) (uniform toy_sources 0) toy_batch of
      Ok iv \<Rightarrow>
        (case train_batch (run_args False) toy_criterion no_update toy_sources (0, toy_batch)
                (train_init (run_args False) toy_model) of
           Ok s' \<Rightarrow>
             scored toy_batch (length (d_input toy_batch)) = [2] \<and> trials_counter s' = 1
             \<and> hidden s' = run_hidden toy_model (normal toy_sources 0) (recurrentinputs iv) 3
                  (torch_zeros 1 1)
         | _ \<Rightarrow> False)
    | _ \<Rightarrow> False)
   \<and> (case test_inputs toy_batch of
        Ok xs \<Rightarrow>
          (case test_batch (run_args False) toy_model toy_criterion toy_sources (0, toy_batch)
                  (test_init (run_args False) toy_model) of
             Ok t' \<Rightarrow>
               trials_counter t' = 1
               \<and> hidden t' = run_hidden toy_model (normal toy_sources 0) xs 3 (torch_zeros 1 1)
           | _ \<Rightarrow> False)
      | _ \<Rightarrow> False)"
proof -
  let ?a = "run_args False"
  let ?tr = "train_inputs ?a (uniform toy_sources 0) toy_batch"
  let ?tb = "train_batch ?a toy_criterion no_update toy_sources (0, toy_batch)
                (train_init ?a toy_model)"
  let ?te = "test_inputs toy_batch"
  let ?eb = "test_batch ?a toy_model toy_criterion toy_sources (0, toy_batch)
                (test_init ?a toy_model)"
  from toy_runs(1) obtain iv where tr: "?tr = Ok iv" by (cases ?tr) simp_all
  with toy_runs(1) obtain s' where tb: "?tb = Ok s'" by (cases ?tb) simp_all
  from toy_runs(2) obtain xs where te: "?te = Ok xs" by (cases ?te) simp_all
  with toy_runs(2) obtain t' where eb: "?eb = Ok t'" by (cases ?eb) simp_all
  note T = scored_positions_accrue [where a = ?a and src = toy_sources and b = 0
      and d = toy_batch and criterion = toy_criterion and optimizer_step = no_update
      and s = "train_init ?a toy_model" and m = toy_model and t = "test_init ?a toy_model"]
  from T tr tb have
    "hidden s' = run_hidden toy_model (normal toy_sources 0) (recurrentinputs iv) 3
        (torch_zeros 1 1)"
    "trials_counter s' = 1"
    unfolding toy_starts toy_runs(3) by auto
  moreover from T te eb have
    "hidden t' = run_hidden toy_model (normal toy_sources 0) xs 3 (torch_zeros 1 1)"
    "trials_counter t' = 1"
    unfolding toy_starts toy_runs(3) by auto
  ultimately show ?thesis unfolding tr tb te eb using toy_runs(3) toy_starts(6) by simp
qed

text \<open>
  C3. When the hidden state is retained and the sequence has at least two positions, the
  hidden state the next sequence starts from is the hidden state reached after the step
  at the second-to-last position: in \<^verbatim>\<open>recurrent_train\<close> for any noise, and in
  \<^verbatim>\<open>recurrent_test\<close>, where the noise is added in place to a tensor that shares its
  storage with the kept state, when the noise is zero. With zero noise the state given to
  the network is the state itself, and each step is the network applied to the input and
  the state before.
\<close>

theorem hidden_state_carried_over:
  assumes retain: "retain_hidden_state a" and L: "2 \<le> length (d_input d)"
  shows "(\<forall>iv s'. train_inputs a (uniform src b) d = Ok iv
            \<and> train_batch a criterion optimizer_step src (b, d) s = Ok s' \<longrightarrow>
            start_hidden a (net s') (latentstate s') =
              run_hidden (net s) (normal src b) (recurrentinputs iv) (length (d_input d) - 1)
                (start_hidden a (net s) (latentstate s)))
       \<and> (hidden_noise m = 0 \<longrightarrow>
            (\<forall>xs t'. test_inputs d = Ok xs \<and> test_batch a m criterion src (b, d) t = Ok t' \<longrightarrow>
               start_hidden a m (latentstate t') =
                 run_hidden m (normal src b) xs (length (d_input d) - 1)
                   (start_hidden a m (latentstate t)))
            \<and> tensor_add h (noise_tensor m (z k) h) = h
            \<and> run_hidden m z ys (Suc k) h = snd (forward m (ys ! k) (run_hidden m z ys k h)))"
proof (intro conjI allI impI)
  fix iv s'
  assume "train_inputs a (uniform src b) d = Ok iv
        \<and> train_batch a criterion optimizer_step src (b, d) s = Ok s'"
  then have i: "train_inputs a (uniform src b) d = Ok iv"
    and r: "train_batch a criterion optimizer_step src (b, d) s = Ok s'" by simp_all
  from train_batch_fields [OF i r] L retain
  show "start_hidden a (net s') (latentstate s') =
              run_hidden (net s) (normal src b) (recurrentinputs iv) (length (d_input d) - 1)
                (start_hidden a (net s) (latentstate s))"
    by (simp add: start_hidden_def)
next
  fix xs t'
  assume zero: "hidden_noise m = 0"
    and "test_inputs d = Ok xs \<and> test_batch a m criterion src (b, d) t = Ok t'"
  then have i: "test_inputs d = Ok xs"
    and r: "test_batch a m criterion src (b, d) t = Ok t'" by simp_all
  from test_batch_latent [OF i r zero] L retain
  show "start_hidden a m (latentstate t') =
                 run_hidden m (normal src b) xs (length (d_input d) - 1)
                   (start_hidden a m (latentstate t))"
    by (simp add: start_hidden_def)
next
  assume zero: "hidden_noise m = 0"
  show "tensor_add h (noise_tensor m (z k) h) = h" by (rule zero_noise [OF zero])
  show "run_hidden m z ys (Suc k) h = snd (forward m (ys ! k) (run_hidden m z ys k h))"
    by (simp add: Let_def zero_noise [OF zero])
qed

theorem hidden_state_carried_over_witness:
  "retain_hidden_state (run_args False) \<and> 2 \<le> length (d_input toy_batch)
   \<and> hidden_noise toy_model = 0
   \<and> (case train_inputs (run_args False) (uniform toy_sources 0) toy_batch of
        Ok iv \<Rightarrow>
          (case train_batch (run_args False) toy_criterion no_update toy_sources (0, toy_batch)
                  (train_init (run_args False) toy_model) of
             Ok s' \<Rightarrow>
               start_hidden (run_args False) (net s') (latentstate s') = [[4]]
               \<and> run_hidden toy_model (normal toy_sources 0) (recurrentinputs iv) 2
                    (torch_zeros 1 1) = [[4]]
           | _ \<Rightarrow> False)
      | _ \<Rightarrow> False)
   \<and> (case test_inputs toy_batch of
        Ok xs \<Rightarrow>
          (case test_batch (run_args False) toy_model toy_criterion toy_sources (0, toy_batch)
                  (test_init (run_args False) toy_model) of
             Ok t' \<Rightarrow>
               start_hidden (run_args False) toy_model (latentstate t') = [[4]]
               \<and> run_hidden toy_model (normal toy_sources 0) xs 2 (torch_zeros 1 1) = [[4]]
           | _ \<Rightarrow> False)
      | _ \<Rightarrow> False)"
proof -
  let ?a = "run_args False"
  let ?tr = "train_inputs ?a (uniform toy_sources 0) toy_batch"
  let ?tb = "train_batch ?a toy_criterion no_update toy_sources (0, toy_batch)
                (train_init ?a toy_model)"
  let ?te = "test_inputs toy_batch"
  let ?eb = "test_batch ?a toy_model toy_criterion toy_sources (0, toy_batch)
                (test_init ?a toy_model)"
  from toy_runs(1) obtain iv where tr: "?tr = Ok iv" by (cases ?tr) simp_all
  with toy_runs(1) obtain s' where tb: "?tb = Ok s'" and ls: "latentstate s' = [[4]]"
    by (cases ?tb) simp_all
  from toy_runs(2) obtain xs where te: "?te = Ok xs" by (cases ?te) simp_all
  with toy_runs(2) obtain t' where eb: "?eb = Ok t'" and lt: "latentstate t' = [[4]]"
    by (cases ?eb) simp_all
  have h: "retain_hidden_state ?a" "2 \<le> length (d_input toy_batch)" "hidden_noise toy_model = 0"
    by (simp_all add: run_args_def toy_batch_def toy_model_def)
  note T = hidden_state_carried_over [OF h(1,2), where src = toy_sources and b = 0
      and criterion = toy_criterion and optimizer_step = no_update
      and s = "train_init ?a toy_model" and m = toy_model and t = "test_init ?a toy_model"]
  have st: "start_hidden ?a (net s') [[4]] = [[4]]" "start_hidden ?a toy_model [[4]] = [[4]]"
    using h(1) by (simp_all add: start_hidden_def)
  from T tr tb have "start_hidden ?a (net s') (latentstate s') =
      run_hidden toy_model (normal toy_sources 0) (recurrentinputs iv) 2 (torch_zeros 1 1)"
    unfolding toy_starts by auto
  then have 1: "run_hidden toy_model (normal toy_sources 0) (recurrentinputs iv) 2
      (torch_zeros 1 1) = [[4]]" unfolding ls st by simp
  from T te eb h(3) have "start_hidden ?a toy_model (latentstate t') =
      run_hidden toy_model (normal toy_sources 0) xs 2 (torch_zeros 1 1)"
    unfolding toy_starts by auto
  then have 2: "run_hidden toy_model (normal toy_sources 0) xs 2 (torch_zeros 1 1) = [[4]]"
    unfolding lt st by simp
  from 1 2 h st show ?thesis unfolding tr tb te eb by (simp add: ls lt)
qed

end
